theory Spec2Isabelle
  imports Complex_Main "HOL-Library.Multiset"
begin

section \<open>Values, errors and the world the scraper runs in\<close>

text \<open>
  The scraper (\<^verbatim>\<open>src/db/dharmaseed_scrape_talks.py\<close>) handles whatever
  \<^verbatim>\<open>json.load\<close> and \<^verbatim>\<open>Response.json()\<close> hand to it, so the values of the
  model are JSON values as Python sees them after decoding: \<^verbatim>\<open>None\<close>, \<^verbatim>\<open>bool\<close>,
  \<^verbatim>\<open>int\<close>, finite \<^verbatim>\<open>float\<close>, \<^verbatim>\<open>str\<close>, \<^verbatim>\<open>list\<close> and \<^verbatim>\<open>dict\<close>. A dict is an
  association list in insertion order; a decoded dict never repeats a key.
\<close>

datatype json =
    JNull
  | JBool bool
  | JInt int
  | JFloat rat
  | JStr string
  | JList "json list"
  | JObj "(string \<times> json) list"

text \<open>
  Exceptions of the source are values. \<open>OutsideModel\<close> is not a Python exception: it
  marks the few places where the result depends on Python's dynamic comparison of
  values that the source's annotations (\<^verbatim>\<open>id: int\<close>, \<^verbatim>\<open>List[int]\<close>) exclude.
\<close>

datatype py_error =
    JSONDecodeError
  | UnicodeDecodeError
  | KeyError
  | TypeError
  | AttributeError
  | ZeroDivisionError
  | ValueError
  | HTTPError int
  | RequestException
  | OutsideModel

text \<open>
  What \<^verbatim>\<open>open(filename, encoding='utf-8')\<close> followed by \<^verbatim>\<open>json.load\<close> finds:
  no file, bytes that are not UTF-8, text that \<^verbatim>\<open>json.load\<close> rejects with a
  JSONDecodeError, JSON text with an integer literal beyond the digit limit of
  \<^verbatim>\<open>int\<close> (a plain ValueError), or a decoded value (the non-finite floats that
  \<^verbatim>\<open>json.load\<close> also accepts are not among the values).
  \<^verbatim>\<open>json.dump\<close> followed by \<^verbatim>\<open>json.load\<close> is taken to give the value back, so a
  file is identified with the value it holds.
\<close>

datatype file_state = Absent | BadEncoding | BadJson | BadNumber | Decoded json

datatype url = TalksEndpoint | TalkUrl int | ItemUrl string int

text \<open>
  A GET either raises a \<^verbatim>\<open>requests.RequestException\<close> (connection error, timeout)
  or returns a response with a status code and a body; the body is \<open>None\<close> when it
  is not JSON.
\<close>

datatype response = ConnectionFailed | Response int "json option"

datatype warning = CouldNotLoad py_error | FetchFailed url

text \<open>
  The state outside the program: the snapshot file, and logs of what the program did to
  the outside, oldest first: the GETs it issued, the \<^verbatim>\<open>time.sleep\<close> calls (seconds),
  the values written by \<^verbatim>\<open>save_talks_to_json\<close>, the warnings printed and the IDs
  passed to \<^verbatim>\<open>fetch_talk_details\<close>. The remote side is a function from the number
  of GETs issued so far and the URL to the response.
\<close>

record world =
  talks_file :: file_state
  gets :: "url list"
  sleeps :: "rat list"
  saves :: "json list"
  warnings :: "warning list"
  calls :: "int list"

type_synonym remote = "nat \<Rightarrow> url \<Rightarrow> response"

definition world0 :: "file_state \<Rightarrow> world" where
  "world0 fs = \<lparr>talks_file = fs, gets = [], sleeps = [], saves = [], warnings = [], calls = []\<rparr>"

section \<open>Python's view of JSON values\<close>

text \<open>Truth value of a decoded value (\<^verbatim>\<open>if result:\<close>, \<^verbatim>\<open>if data.get("audio_url"):\<close>).\<close>

fun truthy :: "json \<Rightarrow> bool" where
  "truthy JNull = False"
| "truthy (JBool b) = b"
| "truthy (JInt n) = (n \<noteq> 0)"
| "truthy (JFloat q) = (q \<noteq> 0)"
| "truthy (JStr s) = (s \<noteq> [])"
| "truthy (JList xs) = (xs \<noteq> [])"
| "truthy (JObj kv) = (kv \<noteq> [])"

text \<open>\<^verbatim>\<open>for t in talks\<close>: lists yield their elements, dicts their keys, strings their
  characters; nothing else is iterable.\<close>

fun iter_values :: "json \<Rightarrow> py_error + json list" where
  "iter_values (JList xs) = Inr xs"
| "iter_values (JObj kv) = Inr (map (\<lambda>p. JStr (fst p)) kv)"
| "iter_values (JStr s) = Inr (map (\<lambda>c. JStr [c]) s)"
| "iter_values _ = Inl TypeError"

text \<open>\<^verbatim>\<open>t['id']\<close>: a missing key is a KeyError; subscripting anything but a dict
  with a string is a TypeError.\<close>

fun subscript_id :: "json \<Rightarrow> py_error + json" where
  "subscript_id (JObj kv) = (case map_of kv ''id'' of None \<Rightarrow> Inl KeyError | Some v \<Rightarrow> Inr v)"
| "subscript_id _ = Inl TypeError"

text \<open>Members of a Python set are hashed: lists and dicts are not hashable.\<close>

fun hashable :: "json \<Rightarrow> bool" where
  "hashable (JList xs) = False"
| "hashable (JObj kv) = False"
| "hashable _ = True"

text \<open>\<^verbatim>\<open>{t['id'] for t in talks}\<close>, elements in order of insertion; the first
  element that fails raises.\<close>

fun id_set :: "json list \<Rightarrow> py_error + json list" where
  "id_set [] = Inr []"
| "id_set (t # ts) =
     (case subscript_id t of
        Inl e \<Rightarrow> Inl e
      | Inr v \<Rightarrow>
          if \<not> hashable v then Inl TypeError
          else (case id_set ts of Inl e \<Rightarrow> Inl e | Inr vs \<Rightarrow> Inr (v # vs)))"

section \<open>load_existing_talks\<close>

text \<open>
  Lines 46-61. Only \<^verbatim>\<open>json.JSONDecodeError\<close> and \<^verbatim>\<open>KeyError\<close> are caught; every
  other exception leaves the function.
\<close>

definition load_existing_talks :: "world \<Rightarrow> (py_error + json \<times> json list) \<times> world" where
  "load_existing_talks w =
     (case talks_file w of
        Absent \<Rightarrow> (Inr (JList [], []), w)
      | BadEncoding \<Rightarrow> (Inl UnicodeDecodeError, w)
      | BadJson \<Rightarrow>
          (Inr (JList [], []), w\<lparr>warnings := warnings w @ [CouldNotLoad JSONDecodeError]\<rparr>)
      | BadNumber \<Rightarrow> (Inl ValueError, w)
      | Decoded talks \<Rightarrow>
          (case iter_values talks of
             Inl e \<Rightarrow> (Inl e, w)
           | Inr ts \<Rightarrow>
               (case id_set ts of
                  Inl e \<Rightarrow>
                    if e = KeyError
                    then (Inr (JList [], []), w\<lparr>warnings := warnings w @ [CouldNotLoad KeyError]\<rparr>)
                    else (Inl e, w)
                | Inr ids \<Rightarrow> (Inr (talks, ids), w))))"

text \<open>
  The file states on which the loader falls back to the empty snapshot: no file, text
  that is not JSON, and a JSON array of objects with hashable IDs of which at least one
  has no \<^verbatim>\<open>id\<close> key.
\<close>

definition id_usable :: "json \<Rightarrow> bool" where
  "id_usable t = (case subscript_id t of Inr v \<Rightarrow> hashable v | Inl e \<Rightarrow> e = KeyError)"

definition lacks_id :: "json \<Rightarrow> bool" where
  "lacks_id t = (subscript_id t = Inl KeyError)"

fun falls_back :: "file_state \<Rightarrow> bool" where
  "falls_back Absent = True"
| "falls_back BadJson = True"
| "falls_back (Decoded (JList ts)) = (list_all id_usable ts \<and> list_ex lacks_id ts)"
| "falls_back _ = False"

section \<open>fetch_talk_details and fetch_item_details\<close>

text \<open>
  Lines 97-101 of the talks scraper (125-139 of the teachers scraper): what the
  \<^verbatim>\<open>except requests.RequestException\<close> handler does to the world on attempt
  number \<open>attempt\<close>: a warning on the last attempt, two seconds of sleep otherwise.
\<close>

definition on_request_exception :: "url \<Rightarrow> int \<Rightarrow> nat \<Rightarrow> world \<Rightarrow> world" where
  "on_request_exception u max_retries attempt w =
     (if int attempt = max_retries - 1
      then w\<lparr>warnings := warnings w @ [FetchFailed u]\<rparr>
      else w\<lparr>sleeps := sleeps w @ [2]\<rparr>)"

text \<open>
  One pass through the body of \<^verbatim>\<open>for attempt in range(max_retries)\<close>: the GET, then
  either the payload (the function returns) or nothing (the loop goes on).
  \<^verbatim>\<open>raise_for_status\<close> raises for a status from 400 to 599; a body that is not JSON
  makes \<^verbatim>\<open>r.json()\<close> raise requests' own JSONDecodeError, which is a
  RequestException.
\<close>

definition attempt_once :: "remote \<Rightarrow> url \<Rightarrow> int \<Rightarrow> nat \<Rightarrow> world \<Rightarrow> json option \<times> world" where
  "attempt_once net u max_retries attempt w =
     (let r = net (length (gets w)) u;
          w1 = w\<lparr>gets := gets w @ [u]\<rparr>
      in case r of
           ConnectionFailed \<Rightarrow> (None, on_request_exception u max_retries attempt w1)
         | Response status body \<Rightarrow>
             if status = 429
             then (None, w1\<lparr>sleeps := sleeps w1 @ [of_int ((int attempt + 1) * 5)]\<rparr>)
             else if 400 \<le> status \<and> status < 600
             then (None, on_request_exception u max_retries attempt w1)
             else (case body of
                     None \<Rightarrow> (None, on_request_exception u max_retries attempt w1)
                   | Some payload \<Rightarrow> (Some payload, w1)))"

text \<open>The loop from attempt number \<open>attempt\<close> on; falling out of it returns \<^verbatim>\<open>None\<close>,
  which is the value \<open>JNull\<close>. The two scrapers hold the same loop, once per URL
  scheme, so one function stands for both.\<close>

function retry_from :: "remote \<Rightarrow> url \<Rightarrow> int \<Rightarrow> nat \<Rightarrow> world \<Rightarrow> json \<times> world" where
  "retry_from net u max_retries attempt w =
     (if int attempt < max_retries
      then (case attempt_once net u max_retries attempt w of
              (Some payload, w1) \<Rightarrow> (payload, w1)
            | (None, w1) \<Rightarrow> retry_from net u max_retries (Suc attempt) w1)
      else (JNull, w))"
  by pat_completeness auto
termination
  by (relation "measure (\<lambda>(net, u, max_retries, attempt, w). nat (max_retries - int attempt))") auto

declare retry_from.simps [simp del]

definition fetch_talk_details :: "remote \<Rightarrow> int \<Rightarrow> int \<Rightarrow> world \<Rightarrow> json \<times> world" where
  "fetch_talk_details net talk_id max_retries w =
     retry_from net (TalkUrl talk_id) max_retries 0 (w\<lparr>calls := calls w @ [talk_id]\<rparr>)"

definition fetch_item_details :: "remote \<Rightarrow> string \<Rightarrow> int \<Rightarrow> int \<Rightarrow> world \<Rightarrow> json \<times> world" where
  "fetch_item_details net endpoint item_id max_retries w =
     retry_from net (ItemUrl endpoint item_id) max_retries 0 w"

text \<open>The sleeps of the rate-limit branch after attempts \<open>0, ..., n - 1\<close>.\<close>

definition backoff :: "nat \<Rightarrow> rat list" where
  "backoff n = map (\<lambda>attempt. of_int ((int attempt + 1) * 5)) [0..<n]"

text \<open>A response the function returns on: not 429, not an error status, a JSON body.\<close>

fun success_with :: "json \<Rightarrow> response \<Rightarrow> bool" where
  "success_with payload (Response status (Some body)) =
     (body = payload \<and> status \<noteq> 429 \<and> \<not> (400 \<le> status \<and> status < 600))"
| "success_with payload _ = False"

fun rate_limited :: "response \<Rightarrow> bool" where
  "rate_limited (Response status body) = (status = 429)"
| "rate_limited _ = False"

section \<open>parse_talk and the Talk dataclass\<close>

definition BASE :: string where
  "BASE = ''https://dharmaseed.org''"

record Talk =
  id' :: json
  title :: json
  teacher_id :: json
  description :: json
  rec_date :: json
  duration_in_minutes :: json
  venue_id :: json
  retreat_id :: json
  language_id :: json
  recording_type :: json
  audio_url :: json

text \<open>\<^verbatim>\<open>data.get(key, default)\<close> on a dict.\<close>

definition dict_get :: "(string \<times> json) list \<Rightarrow> string \<Rightarrow> json \<Rightarrow> json" where
  "dict_get kv k dflt = (case map_of kv k of None \<Rightarrow> dflt | Some v \<Rightarrow> v)"

text \<open>
  Lines 105-129. The f-string formats the value of \<^verbatim>\<open>audio_url\<close>: a string stands
  for itself; for any other value the text is what Python's \<^verbatim>\<open>str\<close> gives, taken as
  the parameter \<open>fmt\<close>. Anything but a dict has no \<^verbatim>\<open>get\<close>.
\<close>

definition format_value :: "(json \<Rightarrow> string) \<Rightarrow> json \<Rightarrow> string" where
  "format_value fmt v = (case v of JStr s \<Rightarrow> s | _ \<Rightarrow> fmt v)"

fun parse_talk :: "(json \<Rightarrow> string) \<Rightarrow> json \<Rightarrow> py_error + Talk" where
  "parse_talk fmt (JObj data) =
     Inr \<lparr>id' = dict_get data ''id'' (JInt 0),
          title = dict_get data ''title'' (JStr []),
          teacher_id = dict_get data ''teacher_id'' (JInt 0),
          description = dict_get data ''description'' (JStr []),
          rec_date = dict_get data ''rec_date'' (JStr []),
          duration_in_minutes = dict_get data ''duration_in_minutes'' (JInt 0),
          venue_id = dict_get data ''venue_id'' JNull,
          retreat_id = dict_get data ''retreat_id'' JNull,
          language_id = dict_get data ''language_id'' (JInt 1),
          recording_type = dict_get data ''recording_type'' (JStr []),
          audio_url =
            (if truthy (dict_get data ''audio_url'' JNull)
             then JStr (BASE @ format_value fmt (dict_get data ''audio_url'' JNull))
             else JStr [])\<rparr>"
| "parse_talk fmt _ = Inl AttributeError"

definition asdict :: "Talk \<Rightarrow> json" where
  "asdict t =
     JObj [(''id'', id' t), (''title'', title t), (''teacher_id'', teacher_id t),
           (''description'', description t), (''rec_date'', rec_date t),
           (''duration_in_minutes'', duration_in_minutes t), (''venue_id'', venue_id t),
           (''retreat_id'', retreat_id t), (''language_id'', language_id t),
           (''recording_type'', recording_type t), (''audio_url'', audio_url t)]"

section \<open>Merging, sorting and saving\<close>

text \<open>\<^verbatim>\<open>existing_talks + new_talks\<close>: only a list can be added to a list.\<close>

fun py_concat :: "json \<Rightarrow> json list \<Rightarrow> py_error + json list" where
  "py_concat (JList xs) ys = Inr (xs @ ys)"
| "py_concat _ ys = Inl TypeError"

text \<open>The sort keys \<^verbatim>\<open>t['id']\<close>, computed for every element before any comparison.\<close>

fun id_keys :: "json list \<Rightarrow> py_error + json list" where
  "id_keys [] = Inr []"
| "id_keys (t # ts) =
     (case subscript_id t of
        Inl e \<Rightarrow> Inl e
      | Inr v \<Rightarrow> (case id_keys ts of Inl e \<Rightarrow> Inl e | Inr vs \<Rightarrow> Inr (v # vs)))"

text \<open>Python numbers (\<^verbatim>\<open>bool\<close> is a subclass of \<^verbatim>\<open>int\<close>) compare by value.\<close>

fun number :: "json \<Rightarrow> rat option" where
  "number (JInt n) = Some (of_int n)"
| "number (JBool b) = Some (if b then 1 else 0)"
| "number (JFloat q) = Some q"
| "number _ = None"

definition id_number :: "json \<Rightarrow> rat" where
  "id_number t =
     (case subscript_id t of
        Inr v \<Rightarrow> (case number v of Some q \<Rightarrow> q | None \<Rightarrow> 0)
      | Inl e \<Rightarrow> 0)"

text \<open>
  \<^verbatim>\<open>all_talks.sort(key=lambda t: t['id'], reverse=True)\<close>. Python's sort is stable
  also with \<^verbatim>\<open>reverse=True\<close>: records with equal keys keep their order, which is the
  stable ascending sort on the negated key. With fewer than two records nothing is
  compared. Keys that are not all numbers are compared by Python's dynamic rules
  (a TypeError, or the order of strings), which are \<open>OutsideModel\<close>.
\<close>

definition sort_by_id_desc :: "json list \<Rightarrow> py_error + json list" where
  "sort_by_id_desc ts =
     (case id_keys ts of
        Inl e \<Rightarrow> Inl e
      | Inr ks \<Rightarrow>
          if length ts \<le> 1 then Inr ts
          else if list_all (\<lambda>k. number k \<noteq> None) ks
          then Inr (sort_key (\<lambda>t. - id_number t) ts)
          else Inl OutsideModel)"

text \<open>Lines 189-191 and 202-205: concatenate, then sort.\<close>

definition merge_sorted :: "json \<Rightarrow> json list \<Rightarrow> py_error + json list" where
  "merge_sorted existing_talks new_talks =
     (case py_concat existing_talks new_talks of
        Inl e \<Rightarrow> Inl e
      | Inr all_talks \<Rightarrow> sort_by_id_desc all_talks)"

text \<open>Lines 210-215: the file now holds the value written.\<close>

definition save_talks_to_json :: "json \<Rightarrow> world \<Rightarrow> world" where
  "save_talks_to_json talks w = w\<lparr>talks_file := Decoded talks, saves := saves w @ [talks]\<rparr>"

section \<open>fetch_talk_ids\<close>

text \<open>The listing is a \<^verbatim>\<open>List[int]\<close>; a value of \<^verbatim>\<open>items\<close> that is not a list of
  integers is outside the model.\<close>

fun int_list :: "json list \<Rightarrow> int list option" where
  "int_list [] = Some []"
| "int_list (JInt n # vs) = (case int_list vs of None \<Rightarrow> None | Some ns \<Rightarrow> Some (n # ns))"
| "int_list (v # vs) = None"

definition fetch_talk_ids :: "remote \<Rightarrow> world \<Rightarrow> (py_error + int list) \<times> world" where
  "fetch_talk_ids net w =
     (let r = net (length (gets w)) TalksEndpoint;
          w1 = w\<lparr>gets := gets w @ [TalksEndpoint]\<rparr>
      in case r of
           ConnectionFailed \<Rightarrow> (Inl RequestException, w1)
         | Response status body \<Rightarrow>
             if 400 \<le> status \<and> status < 600 then (Inl (HTTPError status), w1)
             else (case body of
                     None \<Rightarrow> (Inl JSONDecodeError, w1)
                   | Some (JObj data) \<Rightarrow>
                       (case map_of data ''items'' of
                          None \<Rightarrow> (Inr [], w1)
                        | Some (JList vs) \<Rightarrow>
                            (case int_list vs of
                               None \<Rightarrow> (Inl OutsideModel, w1)
                             | Some ids \<Rightarrow> (Inr ids, w1))
                        | Some _ \<Rightarrow> (Inl OutsideModel, w1))
                   | Some _ \<Rightarrow> (Inl AttributeError, w1)))"

section \<open>fetch_talks_incremental\<close>

text \<open>\<^verbatim>\<open>tid not in existing_ids\<close>: an integer equals a member of the set when the
  member is a number of the same value.\<close>

definition py_in :: "int \<Rightarrow> json list \<Rightarrow> bool" where
  "py_in tid existing_ids = list_ex (\<lambda>v. number v = Some (of_int tid)) existing_ids"

text \<open>\<^verbatim>\<open>new_ids[:limit]\<close>: a negative bound counts from the end.\<close>

definition slice_to :: "int \<Rightarrow> 'a list \<Rightarrow> 'a list" where
  "slice_to l xs = (if 0 \<le> l then take (nat l) xs else take (nat (int (length xs) + l)) xs)"

text \<open>Lines 162-165: \<^verbatim>\<open>None\<close> and \<^verbatim>\<open>0\<close> are both false in \<^verbatim>\<open>if limit and ...\<close>.\<close>

definition limit_new_ids :: "int option \<Rightarrow> int list \<Rightarrow> int list" where
  "limit_new_ids limit new_ids =
     (case limit of
        None \<Rightarrow> new_ids
      | Some l \<Rightarrow> if l \<noteq> 0 \<and> l < int (length new_ids) then slice_to l new_ids else new_ids)"

text \<open>Lines 188-193: the checkpoint.\<close>

definition checkpoint :: "json \<Rightarrow> json list \<Rightarrow> world \<Rightarrow> (py_error + unit) \<times> world" where
  "checkpoint existing_talks new_talks w =
     (case merge_sorted existing_talks new_talks of
        Inl e \<Rightarrow> (Inl e, w)
      | Inr all_talks \<Rightarrow> (Inr (), save_talks_to_json (JList all_talks) w))"

text \<open>Lines 176-181: one detail fetch; a false result counts as a failure
  (\<^verbatim>\<open>failed_count\<close> is printed only and left out).\<close>

definition fetch_one ::
  "remote \<Rightarrow> (json \<Rightarrow> string) \<Rightarrow> int \<Rightarrow> json list \<Rightarrow> world \<Rightarrow> (py_error + json list) \<times> world" where
  "fetch_one net fmt talk_id new_talks w =
     (case fetch_talk_details net talk_id 5 w of
        (result, w1) \<Rightarrow>
          if truthy result
          then (case parse_talk fmt result of
                  Inl e \<Rightarrow> (Inl e, w1)
                | Inr talk \<Rightarrow> (Inr (new_talks @ [asdict talk]), w1))
          else (Inr new_talks, w1))"

text \<open>
  Lines 175-195: the loop over \<^verbatim>\<open>enumerate(new_ids)\<close>, from index \<open>i\<close> on, with the
  records fetched so far. \<^verbatim>\<open>(i + 1) % save_interval\<close> divides by zero when the
  interval is 0; for other intervals Python's \<^verbatim>\<open>%\<close> is \<open>mod\<close> on \<open>int\<close>.
  \<^verbatim>\<open>time.sleep(delay_s)\<close> at the end of each pass raises a ValueError for a
  negative delay (delays are finite numbers here).
\<close>

fun fetch_loop ::
  "remote \<Rightarrow> (json \<Rightarrow> string) \<Rightarrow> json \<Rightarrow> int \<Rightarrow> rat \<Rightarrow> nat \<Rightarrow> int list \<Rightarrow> json list \<Rightarrow> world
     \<Rightarrow> (py_error + json list) \<times> world" where
  "fetch_loop net fmt existing_talks save_interval delay_s i [] new_talks w = (Inr new_talks, w)"
| "fetch_loop net fmt existing_talks save_interval delay_s i (talk_id # rest) new_talks w =
     (case fetch_one net fmt talk_id new_talks w of
        (Inl e, w1) \<Rightarrow> (Inl e, w1)
      | (Inr new_talks1, w1) \<Rightarrow>
          if save_interval = 0 then (Inl ZeroDivisionError, w1)
          else (case (if (int i + 1) mod save_interval = 0
                      then checkpoint existing_talks new_talks1 w1
                      else (Inr (), w1)) of
                  (Inl e, w2) \<Rightarrow> (Inl e, w2)
                | (Inr u, w2) \<Rightarrow>
                    if delay_s < 0 then (Inl ValueError, w2)
                    else fetch_loop net fmt existing_talks save_interval delay_s (Suc i) rest
                           new_talks1 (w2\<lparr>sleeps := sleeps w2 @ [delay_s]\<rparr>)))"

text \<open>
  Lines 132-207. \<open>incremental_run\<close> is the function with its local variables
  \<^verbatim>\<open>existing_talks\<close>, \<^verbatim>\<open>new_ids\<close> (after the limit) and \<^verbatim>\<open>new_talks\<close> returned
  beside the result, so that properties can speak of them;
  \<open>fetch_talks_incremental\<close> returns the result alone, as the source does.
\<close>

record run_result =
  existing_talks :: json
  new_ids :: "int list"
  new_talks :: "json list"
  all_talks :: json

definition incremental_run ::
  "remote \<Rightarrow> (json \<Rightarrow> string) \<Rightarrow> int option \<Rightarrow> rat \<Rightarrow> int \<Rightarrow> world \<Rightarrow> (py_error + run_result) \<times> world" where
  "incremental_run net fmt limit delay_s save_interval w =
     (case load_existing_talks w of
        (Inl e, w1) \<Rightarrow> (Inl e, w1)
      | (Inr (existing, existing_ids), w1) \<Rightarrow>
          (case fetch_talk_ids net w1 of
             (Inl e, w2) \<Rightarrow> (Inl e, w2)
           | (Inr all_ids, w2) \<Rightarrow>
               (let ids = limit_new_ids limit (filter (\<lambda>tid. \<not> py_in tid existing_ids) all_ids)
                in if ids = []
                   then (Inr \<lparr>existing_talks = existing, new_ids = ids, new_talks = [],
                              all_talks = existing\<rparr>, w2)
                   else (case fetch_loop net fmt existing save_interval delay_s 0 ids [] w2 of
                           (Inl e, w3) \<Rightarrow> (Inl e, w3)
                         | (Inr fetched, w3) \<Rightarrow>
                             (case merge_sorted existing fetched of
                                Inl e \<Rightarrow> (Inl e, w3)
                              | Inr sorted_talks \<Rightarrow>
                                  (Inr \<lparr>existing_talks = existing, new_ids = ids,
                                        new_talks = fetched, all_talks = JList sorted_talks\<rparr>, w3))))))"

definition fetch_talks_incremental ::
  "remote \<Rightarrow> (json \<Rightarrow> string) \<Rightarrow> int option \<Rightarrow> rat \<Rightarrow> int \<Rightarrow> world \<Rightarrow> (py_error + json) \<times> world" where
  "fetch_talks_incremental net fmt limit delay_s save_interval w =
     (case incremental_run net fmt limit delay_s save_interval w of
        (Inl e, w1) \<Rightarrow> (Inl e, w1)
      | (Inr r, w1) \<Rightarrow> (Inr (all_talks r), w1))"

section \<open>main\<close>

record args =
  arg_limit :: int
  arg_delay :: rat
  arg_save_interval :: int
  arg_fresh :: bool

definition cli_limit :: "int \<Rightarrow> int option" where
  "cli_limit n = (if n > 0 then Some n else None)"

text \<open>
  Lines 259-284: the fresh start, the mapping of \<^verbatim>\<open>--limit 0\<close> to \<^verbatim>\<open>None\<close>, the run
  and the final save. The result is the list that was saved.
\<close>

definition run_and_save ::
  "remote \<Rightarrow> (json \<Rightarrow> string) \<Rightarrow> args \<Rightarrow> world \<Rightarrow> (py_error + json) \<times> world" where
  "run_and_save net fmt a w =
     (let w0 = (if arg_fresh a \<and> talks_file w \<noteq> Absent then w\<lparr>talks_file := Absent\<rparr> else w)
      in case fetch_talks_incremental net fmt (cli_limit (arg_limit a)) (arg_delay a)
                (arg_save_interval a) w0 of
           (Inl e, w1) \<Rightarrow> (Inl e, w1)
         | (Inr talks, w1) \<Rightarrow> (Inr talks, save_talks_to_json talks w1))"

text \<open>
  Lines 286-295, the summary. It prints only, but it can raise:
  \<^verbatim>\<open>len(talks)\<close> needs a sized value; \<^verbatim>\<open>t.get('rec_date')\<close> needs a dict;
  \<^verbatim>\<open>min(dates)\<close> and \<^verbatim>\<open>max(dates)\<close> compare the dates that count as true;
  \<^verbatim>\<open>t['teacher_id']\<close> needs the key and, for the set, a hashable value.
\<close>

fun sized :: "json \<Rightarrow> bool" where
  "sized (JList xs) = True"
| "sized (JObj kv) = True"
| "sized (JStr s) = True"
| "sized _ = False"

fun get_rec_date :: "json \<Rightarrow> py_error + json" where
  "get_rec_date (JObj kv) = Inr (dict_get kv ''rec_date'' JNull)"
| "get_rec_date _ = Inl AttributeError"

text \<open>\<^verbatim>\<open>[t['rec_date'] for t in talks if t.get('rec_date')]\<close>.\<close>

fun rec_dates :: "json list \<Rightarrow> py_error + json list" where
  "rec_dates [] = Inr []"
| "rec_dates (t # ts) =
     (case get_rec_date t of
        Inl e \<Rightarrow> Inl e
      | Inr v \<Rightarrow>
          (case rec_dates ts of
             Inl e \<Rightarrow> Inl e
           | Inr ds \<Rightarrow> Inr (if truthy v then v # ds else ds)))"

fun is_str :: "json \<Rightarrow> bool" where
  "is_str (JStr s) = True"
| "is_str _ = False"

fun is_list :: "json \<Rightarrow> bool" where
  "is_list (JList xs) = True"
| "is_list _ = False"

text \<open>
  \<^verbatim>\<open>min\<close> and \<^verbatim>\<open>max\<close> compare every further value with the best so far. Numbers
  compare with numbers and strings with strings; a dict compares with nothing, and
  values of two kinds do not compare, so such a list ends in a TypeError. Lists compare
  element by element, which is \<open>OutsideModel\<close>.
\<close>

definition min_max :: "json list \<Rightarrow> py_error + unit" where
  "min_max ds =
     (if length ds \<le> 1 then Inr ()
      else if list_all (\<lambda>d. number d \<noteq> None) ds then Inr ()
      else if list_all is_str ds then Inr ()
      else if list_all is_list ds then Inl OutsideModel
      else Inl TypeError)"

text \<open>\<^verbatim>\<open>set(t['teacher_id'] for t in talks)\<close>.\<close>

fun subscript_teacher_id :: "json \<Rightarrow> py_error + json" where
  "subscript_teacher_id (JObj kv) =
     (case map_of kv ''teacher_id'' of None \<Rightarrow> Inl KeyError | Some v \<Rightarrow> Inr v)"
| "subscript_teacher_id _ = Inl TypeError"

fun teacher_set :: "json list \<Rightarrow> py_error + json list" where
  "teacher_set [] = Inr []"
| "teacher_set (t # ts) =
     (case subscript_teacher_id t of
        Inl e \<Rightarrow> Inl e
      | Inr v \<Rightarrow>
          if \<not> hashable v then Inl TypeError
          else (case teacher_set ts of Inl e \<Rightarrow> Inl e | Inr vs \<Rightarrow> Inr (v # vs)))"

definition summary :: "json \<Rightarrow> py_error + unit" where
  "summary talks =
     (if \<not> sized talks then Inl TypeError
      else if \<not> truthy talks then Inr ()
      else (case iter_values talks of
              Inl e \<Rightarrow> Inl e
            | Inr ts \<Rightarrow>
                (case rec_dates ts of
                   Inl e \<Rightarrow> Inl e
                 | Inr dates \<Rightarrow>
                     (case min_max dates of
                        Inl e \<Rightarrow> Inl e
                      | Inr u \<Rightarrow>
                          (case teacher_set ts of
                             Inl e \<Rightarrow> Inl e
                           | Inr teachers \<Rightarrow> Inr ())))))"

text \<open>Lines 218-295: the run with the final save, then the summary.\<close>

definition main :: "remote \<Rightarrow> (json \<Rightarrow> string) \<Rightarrow> args \<Rightarrow> world \<Rightarrow> (py_error + unit) \<times> world" where
  "main net fmt a w =
     (case run_and_save net fmt a w of
        (Inl e, w1) \<Rightarrow> (Inl e, w1)
      | (Inr talks, w1) \<Rightarrow> (summary talks, w1))"

section \<open>The development proxy\<close>

text \<open>
  \<^verbatim>\<open>src/server.py\<close>. A request carries its path, the outcome of
  \<^verbatim>\<open>int(self.headers.get('Content-Length', 0))\<close> (the text of the ValueError, or the
  number), its Content-Type header and the bytes waiting on \<^verbatim>\<open>rfile\<close>.
\<close>

definition DHARMASEED_BASE :: string where
  "DHARMASEED_BASE = ''https://www.dharmaseed.org''"

record request =
  path :: string
  content_length :: "string + int"
  content_type :: "string option"
  rfile :: string

record upstream_request =
  target_url :: string
  post_data :: "string option"
  sent_content_type :: "string option"

text \<open>
  What \<^verbatim>\<open>urllib.request.urlopen\<close> does: a response with its Content-Type header and
  body, an \<^verbatim>\<open>HTTPError\<close> with code and \<^verbatim>\<open>str(e.reason)\<close>, or another exception
  with its text.
\<close>

datatype upstream =
    UpstreamOK "string option" string
  | UpstreamHTTPError int string
  | UpstreamException string

datatype header_value = Text string | Number nat

text \<open>
  What the handler does for the client: \<^verbatim>\<open>send_response\<close> with headers and body,
  \<^verbatim>\<open>send_error(code, message)\<close>, or the static file handler of the base class.
\<close>

datatype reply =
    Sent int "(string \<times> header_value) list" string
  | SendError int string
  | StaticFile string

definition startswith :: "string \<Rightarrow> string \<Rightarrow> bool" where
  "startswith s pre = (take (length pre) s = pre)"

text \<open>Lines 46-55: the body and the request that goes upstream.\<close>

definition build_request :: "request \<Rightarrow> int \<Rightarrow> string \<Rightarrow> upstream_request" where
  "build_request rq n url =
     (let body = (if n > 0 then Some (take (nat n) (rfile rq)) else None)
      in \<lparr>target_url = url, post_data = body,
          sent_content_type =
            (case body of
               None \<Rightarrow> None
             | Some b \<Rightarrow>
                 if b = [] then None
                 else Some (case content_type rq of
                              None \<Rightarrow> ''application/x-www-form-urlencoded''
                            | Some c \<Rightarrow> c))\<rparr>)"

text \<open>Lines 58-74: the outcome of the remote call, relayed.\<close>

fun relay :: "upstream \<Rightarrow> reply" where
  "relay (UpstreamOK ct body) =
     Sent 200 [(''Content-Type'', Text (case ct of None \<Rightarrow> ''application/octet-stream'' | Some c \<Rightarrow> c)),
               (''Content-Length'', Number (length body)),
               (''Access-Control-Allow-Origin'', Text ''*'')] body"
| "relay (UpstreamHTTPError code reason) = SendError code reason"
| "relay (UpstreamException msg) = SendError 500 msg"

definition proxy_request :: "(upstream_request \<Rightarrow> upstream) \<Rightarrow> request \<Rightarrow> string \<Rightarrow> reply" where
  "proxy_request urlopen rq url =
     (case content_length rq of
        Inl msg \<Rightarrow> SendError 500 msg
      | Inr n \<Rightarrow> relay (urlopen (build_request rq n url)))"

definition do_GET :: "(upstream_request \<Rightarrow> upstream) \<Rightarrow> request \<Rightarrow> reply" where
  "do_GET urlopen rq =
     (if startswith (path rq) ''/feeds/''
      then proxy_request urlopen rq (DHARMASEED_BASE @ path rq)
      else if startswith (path rq) ''/api/''
      then proxy_request urlopen rq (DHARMASEED_BASE @ ''/api/1/'' @ drop 5 (path rq))
      else StaticFile (path rq))"

definition do_OPTIONS :: "request \<Rightarrow> reply" where
  "do_OPTIONS rq =
     Sent 200 [(''Access-Control-Allow-Origin'', Text ''*''),
               (''Access-Control-Allow-Methods'', Text ''GET, POST, OPTIONS''),
               (''Access-Control-Allow-Headers'', Text ''Content-Type'')] []"

section \<open>Predicates used in the statements\<close>

text \<open>
  \<open>id_of\<close> is the ID of a record and \<open>snapshot_ids\<close> the IDs of a snapshot.
  \<open>numeric_id\<close>, \<open>int_id\<close> and \<open>loadable\<close> say that a record has an ID that is a
  number, an integer, or hashable; \<open>unique_ids\<close> that the
  records of a list have integer IDs, no two the same; \<open>saved_ok\<close> and \<open>prior_ok\<close>
  that a written value, or the file before the run, is such a list (or, for the file,
  absent or unreadable). \<open>well_typed\<close> says that every detail payload of the remote that
  counts as true is an object whose ID is a number (the default 0 when it has none);
  \<open>answers_with_id\<close> that it is an object with the requested ID; \<open>distinct_listing\<close>
  that the listing names no ID twice.
\<close>

definition numeric_id :: "json \<Rightarrow> bool" where
  "numeric_id t = (case subscript_id t of Inr v \<Rightarrow> number v \<noteq> None | Inl e \<Rightarrow> False)"

definition payload_ok :: "json \<Rightarrow> bool" where
  "payload_ok j =
     (\<not> truthy j \<or> (case j of JObj data \<Rightarrow> number (dict_get data ''id'' (JInt 0)) \<noteq> None | _ \<Rightarrow> False))"

fun response_ok :: "response \<Rightarrow> bool" where
  "response_ok (Response status (Some j)) = payload_ok j"
| "response_ok _ = True"

definition well_typed :: "remote \<Rightarrow> bool" where
  "well_typed net = (\<forall>k tid. response_ok (net k (TalkUrl tid)))"

definition id_of :: "json \<Rightarrow> json" where
  "id_of t = (case subscript_id t of Inr v \<Rightarrow> v | Inl e \<Rightarrow> JNull)"

definition int_id :: "json \<Rightarrow> bool" where
  "int_id t = (case subscript_id t of Inr (JInt n) \<Rightarrow> True | _ \<Rightarrow> False)"

definition unique_ids :: "json list \<Rightarrow> bool" where
  "unique_ids ts = (list_all int_id ts \<and> distinct (map id_of ts))"

fun saved_ok :: "json \<Rightarrow> bool" where
  "saved_ok (JList ts) = unique_ids ts"
| "saved_ok _ = False"

fun prior_ok :: "file_state \<Rightarrow> bool" where
  "prior_ok (Decoded (JList ts)) = unique_ids ts"
| "prior_ok (Decoded _) = False"
| "prior_ok _ = True"

definition answers_with_id :: "remote \<Rightarrow> bool" where
  "answers_with_id net =
     (\<forall>k tid status j. net k (TalkUrl tid) = Response status (Some j) \<longrightarrow> truthy j \<longrightarrow>
        (\<exists>data. j = JObj data \<and> map_of data ''id'' = Some (JInt tid)))"

definition distinct_listing :: "remote \<Rightarrow> bool" where
  "distinct_listing net = (\<forall>w ids. fst (fetch_talk_ids net w) = Inr ids \<longrightarrow> distinct ids)"

definition loadable :: "json \<Rightarrow> bool" where
  "loadable t = (case subscript_id t of Inr v \<Rightarrow> hashable v | Inl e \<Rightarrow> False)"

definition snapshot_ids :: "json \<Rightarrow> json list" where
  "snapshot_ids j = (case iter_values j of Inr ts \<Rightarrow> map id_of ts | Inl e \<Rightarrow> [])"

section \<open>Inputs for the examples\<close>

text \<open>
  Remotes for the concrete runs: \<open>echo\<close> lists the IDs 1, 2, 3 and answers every
  detail request with a record of that ID; \<open>twins\<close> lists ID 7 twice; \<open>flaky\<close>
  answers every request for ID 1 with status 500; \<open>twice_limited\<close> answers the first
  two GETs with status 429. \<open>bare_talk tid\<close> is the record \<^verbatim>\<open>asdict(parse_talk(...))\<close>
  makes of the payload \<^verbatim>\<open>{"id": tid}\<close>.
\<close>

definition rq0 :: request where
  "rq0 = \<lparr>path = ''/index.html'', content_length = Inr 0, content_type = None, rfile = []\<rparr>"

definition twice_limited :: remote where
  "twice_limited k u = (if k < 2 then Response 429 None else Response 200 (Some (JObj [(''id'', JInt 7)])))"

fun echo :: remote where
  "echo k TalksEndpoint = Response 200 (Some (JObj [(''items'', JList [JInt 1, JInt 2, JInt 3])]))"
| "echo k (TalkUrl tid) = Response 200 (Some (JObj [(''id'', JInt tid)]))"
| "echo k (ItemUrl e i) = ConnectionFailed"

definition plain :: "json \<Rightarrow> string" where
  "plain v = []"

fun twins :: remote where
  "twins k TalksEndpoint = Response 200 (Some (JObj [(''items'', JList [JInt 7, JInt 7])]))"
| "twins k (TalkUrl tid) = Response 200 (Some (JObj [(''id'', JInt tid)]))"
| "twins k (ItemUrl e i) = ConnectionFailed"

fun flaky :: remote where
  "flaky k TalksEndpoint = Response 200 (Some (JObj [(''items'', JList [JInt 1, JInt 2, JInt 3])]))"
| "flaky k (TalkUrl tid) =
     (if tid = 1 then Response 500 None else Response 200 (Some (JObj [(''id'', JInt tid)])))"
| "flaky k (ItemUrl e i) = ConnectionFailed"

definition args0 :: args where
  "args0 = \<lparr>arg_limit = 100, arg_delay = 3 / 10, arg_save_interval = 100, arg_fresh = False\<rparr>"

definition bare_talk :: "int \<Rightarrow> json" where
  "bare_talk tid =
     JObj [(''id'', JInt tid), (''title'', JStr []), (''teacher_id'', JInt 0),
           (''description'', JStr []), (''rec_date'', JStr []),
           (''duration_in_minutes'', JInt 0), (''venue_id'', JNull),
           (''retreat_id'', JNull), (''language_id'', JInt 1),
           (''recording_type'', JStr []), (''audio_url'', JStr [])]"

definition stored9 :: json where
  "stored9 = JObj [(''id'', JInt 9)]"

definition after_first_run :: world where
  "after_first_run =
     \<lparr>talks_file = Decoded (JList [bare_talk 3, bare_talk 2, bare_talk 1]),
      gets = [TalksEndpoint, TalkUrl 1, TalkUrl 2, TalkUrl 3],
      sleeps = [3 / 10, 3 / 10, 3 / 10],
      saves = [JList [bare_talk 3, bare_talk 2, bare_talk 1]],
      warnings = [], calls = [1, 2, 3]\<rparr>"

section \<open>Properties of the loader\<close>

lemma id_set_KeyError:
  "list_all id_usable ts \<Longrightarrow> list_ex lacks_id ts \<Longrightarrow> id_set ts = Inl KeyError"
proof (induction ts)
  case Nil
  then show ?case by simp
next
  case (Cons t ts)
  show ?case
  proof (cases "subscript_id t")
    case (Inl e)
    from Cons.prems(1) have "id_usable t" by simp
    with Inl show ?thesis by (simp add: id_usable_def)
  next
    case (Inr v)
    from Cons.prems(1) have t: "id_usable t" and ts: "list_all id_usable ts"
      by simp_all
    from t Inr have v: "hashable v"
      by (simp add: id_usable_def)
    from Inr have "\<not> lacks_id t"
      by (simp add: lacks_id_def)
    with Cons.prems(2) have "list_ex lacks_id ts"
      by simp
    with Cons.IH ts have "id_set ts = Inl KeyError" .
    with Inr v show ?thesis by simp
  qed
qed

text \<open>
  The cases that the handler covers: \<^verbatim>\<open>load_existing_talks\<close> returns the empty list
  and the empty ID set, without raising, when the file is absent (no warning), when
  \<^verbatim>\<open>json.load\<close> raises a JSONDecodeError and when the file is a JSON array of objects
  one of which lacks the \<^verbatim>\<open>id\<close> key (one warning in both cases).
\<close>

theorem load_falls_back_to_empty:
  assumes "falls_back (talks_file w)"
  shows "load_existing_talks w =
           (Inr (JList [], []),
            if talks_file w = Absent then w
            else w\<lparr>warnings := warnings w @
                     [CouldNotLoad (if talks_file w = BadJson then JSONDecodeError else KeyError)]\<rparr>)"
proof (cases "talks_file w")
  case Absent
  then show ?thesis by (simp add: load_existing_talks_def)
next
  case BadEncoding
  with assms show ?thesis by simp
next
  case BadJson
  then show ?thesis by (simp add: load_existing_talks_def)
next
  case BadNumber
  with assms show ?thesis by simp
next
  case (Decoded j)
  with assms obtain ts where j: "j = JList ts"
    by (cases j) simp_all
  from assms Decoded j have "id_set ts = Inl KeyError"
    by (simp add: id_set_KeyError)
  with Decoded j show ?thesis by (simp add: load_existing_talks_def)
qed

theorem load_falls_back_to_empty_witness:
  "falls_back (talks_file (world0 (Decoded (JList [JObj [(''id'', JInt 3)], JObj [(''title'', JStr ''x'')]])))) \<and>
   load_existing_talks (world0 (Decoded (JList [JObj [(''id'', JInt 3)], JObj [(''title'', JStr ''x'')]]))) =
     (Inr (JList [], []),
      (world0 (Decoded (JList [JObj [(''id'', JInt 3)], JObj [(''title'', JStr ''x'')]])))
        \<lparr>warnings := [CouldNotLoad KeyError]\<rparr>)"
proof -
  have h: "falls_back (talks_file (world0 (Decoded (JList [JObj [(''id'', JInt 3)], JObj [(''title'', JStr ''x'')]]))))"
    by (simp add: world0_def id_usable_def lacks_id_def)
  show ?thesis
    using h load_falls_back_to_empty [OF h] by (simp add: world0_def)
qed

text \<open>
  C7. The loader is to fall back to the empty collection, with a warning and without
  raising, on a file that is valid JSON of the wrong shape. The file \<^verbatim>\<open>[1]\<close> is valid
  JSON but not a snapshot: \<^verbatim>\<open>t['id']\<close> on the integer raises a TypeError, which
  \<^verbatim>\<open>except (json.JSONDecodeError, KeyError)\<close> does not catch, so the loader raises, no
  warning is recorded and nothing is returned.
\<close>

theorem load_non_record_raises:
  "load_existing_talks (world0 (Decoded (JList [JInt 1]))) =
     (Inl TypeError, world0 (Decoded (JList [JInt 1])))"
  by (simp add: load_existing_talks_def world0_def)

section \<open>Properties of the proxy\<close>

text \<open>
  C8. A GET whose path starts with \<^verbatim>\<open>/api/\<close> is forwarded with that prefix replaced by
  \<^verbatim>\<open>/api/1/\<close>, a GET whose path starts with \<^verbatim>\<open>/feeds/\<close> is forwarded with the
  path unchanged (the URL handed to \<^verbatim>\<open>proxy_request\<close> is the URL of the upstream
  request), any other GET goes to the static file handler, and OPTIONS on any path
  answers 200 with the three CORS headers and an empty body.
\<close>

theorem proxy_routing:
  "do_GET urlopen (rq\<lparr>path := ''/api/'' @ rest\<rparr>) =
     proxy_request urlopen (rq\<lparr>path := ''/api/'' @ rest\<rparr>) (DHARMASEED_BASE @ ''/api/1/'' @ rest) \<and>
   do_GET urlopen (rq\<lparr>path := ''/feeds/'' @ rest\<rparr>) =
     proxy_request urlopen (rq\<lparr>path := ''/feeds/'' @ rest\<rparr>) (DHARMASEED_BASE @ ''/feeds/'' @ rest) \<and>
   (\<not> startswith (path rq) ''/feeds/'' \<and> \<not> startswith (path rq) ''/api/''
      \<longrightarrow> do_GET urlopen rq = StaticFile (path rq)) \<and>
   target_url (build_request rq n url) = url \<and>
   do_OPTIONS rq =
     Sent 200 [(''Access-Control-Allow-Origin'', Text ''*''),
               (''Access-Control-Allow-Methods'', Text ''GET, POST, OPTIONS''),
               (''Access-Control-Allow-Headers'', Text ''Content-Type'')] []"
  by (simp add: do_GET_def do_OPTIONS_def startswith_def build_request_def Let_def)

text \<open>The three paths of the specification, against a remote that echoes the URL.\<close>

theorem proxy_routing_witness:
  "do_GET (\<lambda>r. UpstreamOK None (target_url r)) (rq0\<lparr>path := ''/api/talks/''\<rparr>) =
     Sent 200 [(''Content-Type'', Text ''application/octet-stream''),
               (''Content-Length'', Number 39),
               (''Access-Control-Allow-Origin'', Text ''*'')] ''https://www.dharmaseed.org/api/1/talks/'' \<and>
   do_GET (\<lambda>r. UpstreamOK None (target_url r)) (rq0\<lparr>path := ''/feeds/teacher/5/''\<rparr>) =
     Sent 200 [(''Content-Type'', Text ''application/octet-stream''),
               (''Content-Length'', Number 43),
               (''Access-Control-Allow-Origin'', Text ''*'')] ''https://www.dharmaseed.org/feeds/teacher/5/'' \<and>
   \<not> startswith (path rq0) ''/feeds/'' \<and> \<not> startswith (path rq0) ''/api/'' \<and>
   do_GET (\<lambda>r. UpstreamOK None (target_url r)) rq0 = StaticFile ''/index.html''"
  using proxy_routing [where urlopen = "\<lambda>r. UpstreamOK None (target_url r)" and rq = rq0
                          and rest = "''talks/''" and n = 0 and url = "''u''"]
        proxy_routing [where urlopen = "\<lambda>r. UpstreamOK None (target_url r)" and rq = rq0
                          and rest = "''teacher/5/''" and n = 0 and url = "''u''"]
  by (simp add: rq0_def startswith_def proxy_request_def build_request_def DHARMASEED_BASE_def)

text \<open>
  C9. When the request reaches the remote call: an HTTP error with status \<open>s\<close> and reason
  \<open>r\<close> becomes \<^verbatim>\<open>send_error(s, r)\<close>; any other exception becomes
  \<^verbatim>\<open>send_error(500, text)\<close>; a success becomes status 200 with the remote Content-Type
  (\<^verbatim>\<open>application/octet-stream\<close> when the remote sent none), the body unchanged and
  \<^verbatim>\<open>Access-Control-Allow-Origin: *\<close>.
\<close>

theorem proxy_failure_mapping:
  assumes "content_length rq = Inr n"
  shows "(urlopen (build_request rq n url) = UpstreamHTTPError s r
            \<longrightarrow> proxy_request urlopen rq url = SendError s r) \<and>
         (urlopen (build_request rq n url) = UpstreamException msg
            \<longrightarrow> proxy_request urlopen rq url = SendError 500 msg) \<and>
         (urlopen (build_request rq n url) = UpstreamOK (Some ct) body
            \<longrightarrow> proxy_request urlopen rq url =
                 Sent 200 [(''Content-Type'', Text ct),
                           (''Content-Length'', Number (length body)),
                           (''Access-Control-Allow-Origin'', Text ''*'')] body) \<and>
         (urlopen (build_request rq n url) = UpstreamOK None body
            \<longrightarrow> proxy_request urlopen rq url =
                 Sent 200 [(''Content-Type'', Text ''application/octet-stream''),
                           (''Content-Length'', Number (length body)),
                           (''Access-Control-Allow-Origin'', Text ''*'')] body)"
  using assms by (simp add: proxy_request_def)

text \<open>A 404 from the remote, a timeout and a JSON answer.\<close>

theorem proxy_failure_mapping_witness:
  "content_length rq0 = Inr 0 \<and>
   proxy_request (\<lambda>r. UpstreamHTTPError 404 ''Not Found'') rq0 ''u'' = SendError 404 ''Not Found'' \<and>
   proxy_request (\<lambda>r. UpstreamException ''timed out'') rq0 ''u'' = SendError 500 ''timed out'' \<and>
   proxy_request (\<lambda>r. UpstreamOK (Some ''application/json'') ''{}'') rq0 ''u'' =
     Sent 200 [(''Content-Type'', Text ''application/json''),
               (''Content-Length'', Number 2),
               (''Access-Control-Allow-Origin'', Text ''*'')] ''{}''"
proof -
  have h: "content_length rq0 = Inr 0" by (simp add: rq0_def)
  show ?thesis
    using h
      proxy_failure_mapping [OF h, where urlopen = "\<lambda>r. UpstreamHTTPError 404 ''Not Found''"
                                   and url = "''u''" and s = 404 and r = "''Not Found''"]
      proxy_failure_mapping [OF h, where urlopen = "\<lambda>r. UpstreamException ''timed out''"
                                   and url = "''u''" and msg = "''timed out''"]
      proxy_failure_mapping [OF h, where urlopen = "\<lambda>r. UpstreamOK (Some ''application/json'') ''{}''"
                                   and url = "''u''" and ct = "''application/json''" and body = "''{}''"]
    by simp
qed

section \<open>Properties of fetch_talk_details\<close>

text \<open>The loop from attempt \<open>a\<close> on, over \<open>n\<close> rate-limited responses and a success.\<close>

lemma retry_from_rate_limited:
  assumes "\<forall>i<n. rate_limited (net (length (gets w) + i) u)"
    and "success_with payload (net (length (gets w) + n) u)"
    and "int (a + n) < max_retries"
  shows "retry_from net u max_retries a w =
           (payload, w\<lparr>gets := gets w @ replicate (Suc n) u,
                       sleeps := sleeps w @ map (\<lambda>k. of_int ((int k + 1) * 5)) [a..<a + n]\<rparr>)"
  using assms
proof (induction n arbitrary: a w)
  case 0
  from "0.prems"(2) have "\<exists>status. net (length (gets w)) u = Response status (Some payload)
      \<and> status \<noteq> 429 \<and> \<not> (400 \<le> status \<and> status < 600)"
    by (cases "(payload, net (length (gets w)) u)" rule: success_with.cases) auto
  then obtain status where r: "net (length (gets w)) u = Response status (Some payload)"
    and st: "status \<noteq> 429" "\<not> (400 \<le> status \<and> status < 600)"
    by blast
  from "0.prems"(3) have lt: "int a < max_retries" by simp
  show ?case
    by (subst retry_from.simps) (simp add: lt attempt_once_def r st)
next
  case (Suc n)
  let ?w1 = "w\<lparr>gets := gets w @ [u], sleeps := sleeps w @ [of_int ((int a + 1) * 5)]\<rparr>"
  from Suc.prems(1) have "rate_limited (net (length (gets w)) u)"
    by (metis add.right_neutral zero_less_Suc)
  then obtain body where r: "net (length (gets w)) u = Response 429 body"
    by (cases "net (length (gets w)) u") auto
  from Suc.prems(3) have lt: "int a < max_retries" by simp
  have step: "retry_from net u max_retries a w = retry_from net u max_retries (Suc a) ?w1"
    by (subst retry_from.simps) (simp add: lt attempt_once_def r)
  have p1: "\<forall>i<n. rate_limited (net (length (gets ?w1) + i) u)"
    using Suc.prems(1) by auto
  have p2: "success_with payload (net (length (gets ?w1) + n) u)"
    using Suc.prems(2) by simp
  have p3: "int (Suc a + n) < max_retries"
    using Suc.prems(3) by simp
  have up: "[a..<a + Suc n] = a # [Suc a..<Suc a + n]"
    by (simp add: upt_conv_Cons)
  show ?case
    unfolding step Suc.IH [OF p1 p2 p3] up
    by (simp add: replicate_app_Cons_same)
qed


lemma backoff_increasing: "sorted_wrt (<) (backoff n)"
  unfolding backoff_def
  by (simp add: sorted_wrt_map sorted_wrt_iff_nth_less)

text \<open>
  C5. After \<open>n\<close> responses with status 429, \<open>n\<close> below the retry ceiling, followed by a
  success, \<^verbatim>\<open>fetch_talk_details\<close> returns the payload of the success, has issued
  \<open>n + 1\<close> GETs and has slept \<open>(attempt + 1) * 5\<close> seconds after the 429 of each attempt
  \<open>0, ..., n - 1\<close>: a strictly increasing sequence.
\<close>

theorem retry_backoff:
  assumes "int n < max_retries"
    and "\<forall>i<n. rate_limited (net (length (gets w) + i) (TalkUrl talk_id))"
    and "success_with payload (net (length (gets w) + n) (TalkUrl talk_id))"
  shows "fetch_talk_details net talk_id max_retries w =
           (payload, w\<lparr>gets := gets w @ replicate (Suc n) (TalkUrl talk_id),
                       sleeps := sleeps w @ backoff n,
                       calls := calls w @ [talk_id]\<rparr>) \<and>
         (\<forall>attempt<n. backoff n ! attempt = of_int ((int attempt + 1) * 5)) \<and>
         sorted_wrt (<) (backoff n)"
proof -
  let ?w = "w\<lparr>calls := calls w @ [talk_id]\<rparr>"
  have "retry_from net (TalkUrl talk_id) max_retries 0 ?w =
          (payload, ?w\<lparr>gets := gets ?w @ replicate (Suc n) (TalkUrl talk_id),
                       sleeps := sleeps ?w @ map (\<lambda>k. of_int ((int k + 1) * 5)) [0..<0 + n]\<rparr>)"
    using assms by (intro retry_from_rate_limited) simp_all
  then have "fetch_talk_details net talk_id max_retries w =
           (payload, w\<lparr>gets := gets w @ replicate (Suc n) (TalkUrl talk_id),
                       sleeps := sleeps w @ backoff n,
                       calls := calls w @ [talk_id]\<rparr>)"
    by (simp add: fetch_talk_details_def backoff_def)
  moreover have "\<forall>attempt<n. backoff n ! attempt = of_int ((int attempt + 1) * 5)"
    by (simp add: backoff_def)
  ultimately show ?thesis
    using backoff_increasing by blast
qed

text \<open>Two 429 responses, then the record 7.\<close>

theorem retry_backoff_witness:
  "int 2 < 5 \<and>
   rate_limited (twice_limited 0 (TalkUrl 7)) \<and> rate_limited (twice_limited 1 (TalkUrl 7)) \<and>
   success_with (JObj [(''id'', JInt 7)]) (twice_limited (length (gets (world0 Absent)) + 2) (TalkUrl 7)) \<and>
   fetch_talk_details twice_limited 7 5 (world0 Absent) =
     (JObj [(''id'', JInt 7)],
      \<lparr>talks_file = Absent, gets = [TalkUrl 7, TalkUrl 7, TalkUrl 7], sleeps = [5, 10],
       saves = [], warnings = [], calls = [7]\<rparr>)"
proof -
  have h1: "int 2 < 5" by simp
  have h2: "\<forall>i<2. rate_limited (twice_limited (length (gets (world0 Absent)) + i) (TalkUrl 7))"
    by (simp add: twice_limited_def world0_def)
  have h3: "success_with (JObj [(''id'', JInt 7)])
              (twice_limited (length (gets (world0 Absent)) + 2) (TalkUrl 7))"
    by (simp add: twice_limited_def world0_def)
  have b: "backoff 2 = [5, 10]"
    by (simp add: backoff_def numeral_2_eq_2)
  have h4: "rate_limited (twice_limited 0 (TalkUrl 7)) \<and> rate_limited (twice_limited 1 (TalkUrl 7))"
    by (simp add: twice_limited_def)
  show ?thesis
    using h1 h3 h4
      retry_backoff [where n = 2 and max_retries = 5 and net = twice_limited
                       and w = "world0 Absent" and talk_id = 7
                       and payload = "JObj [(''id'', JInt 7)]", OF h1 h2 h3]
    unfolding b by (simp add: world0_def numeral_3_eq_3)
qed

section \<open>Properties of the incremental run\<close>

text \<open>
  The retry loop touches neither the file nor the log of saves, and what it returns is
  \<open>JNull\<close> or the body of a response.
\<close>

lemma attempt_once_frame:
  "talks_file (snd (attempt_once net u mr a w)) = talks_file w"
  "saves (snd (attempt_once net u mr a w)) = saves w"
  "calls (snd (attempt_once net u mr a w)) = calls w"
  by (simp_all add: attempt_once_def on_request_exception_def Let_def
        split: response.splits option.splits)

lemma retry_from_frame:
  "talks_file (snd (retry_from net u mr a w)) = talks_file w \<and>
   saves (snd (retry_from net u mr a w)) = saves w \<and>
   calls (snd (retry_from net u mr a w)) = calls w"
proof (induction net u mr a w rule: retry_from.induct)
  case (1 net u mr a w)
  show ?case
  proof (cases "int a < mr")
    case False
    then show ?thesis by (subst (1 2 3) retry_from.simps) simp
  next
    case True
    obtain x w1 where ao: "attempt_once net u mr a w = (x, w1)"
      by (cases "attempt_once net u mr a w")
    have fr: "talks_file w1 = talks_file w" "saves w1 = saves w" "calls w1 = calls w"
      using attempt_once_frame [of net u mr a w] ao by simp_all
    show ?thesis
    proof (cases x)
      case (Some p)
      with True ao fr show ?thesis by (subst (1 2 3) retry_from.simps) simp
    next
      case None
      from "1.IH" [OF True ao [symmetric] None]
      have "talks_file (snd (retry_from net u mr (Suc a) w1)) = talks_file w1 \<and>
            saves (snd (retry_from net u mr (Suc a) w1)) = saves w1 \<and>
            calls (snd (retry_from net u mr (Suc a) w1)) = calls w1" .
      with True ao fr None show ?thesis by (subst (1 2 3) retry_from.simps) simp
    qed
  qed
qed

text \<open>What comes back is JNull or the body of some response of the remote.\<close>

lemma retry_from_result:
  "fst (retry_from net u mr a w) = JNull \<or>
   (\<exists>k status. net k u = Response status (Some (fst (retry_from net u mr a w))))"
proof (induction net u mr a w rule: retry_from.induct)
  case (1 net u mr a w)
  show ?case
  proof (cases "int a < mr")
    case False
    then show ?thesis by (subst (1 2) retry_from.simps) simp
  next
    case True
    obtain x w1 where ao: "attempt_once net u mr a w = (x, w1)"
      by (cases "attempt_once net u mr a w")
    show ?thesis
    proof (cases x)
      case (Some p)
      with ao have "\<exists>k status. net k u = Response status (Some p)"
        by (auto simp: attempt_once_def Let_def split: response.splits option.splits if_splits)
      with True ao Some show ?thesis by (subst (1 2) retry_from.simps) simp
    next
      case None
      from "1.IH" [OF True ao [symmetric] None] True ao None
      show ?thesis by (subst (1 2) retry_from.simps) simp
    qed
  qed
qed

lemma fetch_talk_details_frame:
  "talks_file (snd (fetch_talk_details net tid mr w)) = talks_file w"
  "saves (snd (fetch_talk_details net tid mr w)) = saves w"
  "calls (snd (fetch_talk_details net tid mr w)) = calls w @ [tid]"
  using retry_from_frame [of net "TalkUrl tid" mr 0 "w\<lparr>calls := calls w @ [tid]\<rparr>"]
  by (simp_all add: fetch_talk_details_def)

lemma fetch_one_frame:
  "talks_file (snd (fetch_one net fmt tid new w)) = talks_file w"
  "saves (snd (fetch_one net fmt tid new w)) = saves w"
  "calls (snd (fetch_one net fmt tid new w)) = calls w @ [tid]"
  using fetch_talk_details_frame [of net tid 5 w]
  by (auto simp: fetch_one_def split: prod.splits sum.splits)

lemma checkpoint_calls: "calls (snd (checkpoint E new w)) = calls w"
  by (simp add: checkpoint_def save_talks_to_json_def split: sum.splits)

lemma fetch_loop_calls:
  "fetch_loop net fmt E si d i ids new w = (Inr N, w') \<Longrightarrow> calls w' = calls w @ ids"
proof (induction ids arbitrary: i new w)
  case Nil
  then show ?case by simp
next
  case (Cons tid rest)
  obtain r1 w1 where f1: "fetch_one net fmt tid new w = (r1, w1)"
    by (cases "fetch_one net fmt tid new w")
  have c1: "calls w1 = calls w @ [tid]"
    using fetch_one_frame(3) [of net fmt tid new w] f1 by simp
  from Cons.prems f1 obtain new1 where r1: "r1 = Inr new1"
    by (cases r1) auto
  from Cons.prems f1 r1 have si: "si \<noteq> 0"
    by (auto split: if_splits)
  obtain r2 w2 where cp: "(if (int i + 1) mod si = 0 then checkpoint E new1 w1 else (Inr (), w1)) = (r2, w2)"
    by (cases "(if (int i + 1) mod si = 0 then checkpoint E new1 w1 else (Inr (), w1))")
  have c2: "calls w2 = calls w1"
    using cp checkpoint_calls [of E new1 w1] by (auto split: if_splits)
  from Cons.prems f1 r1 si cp obtain u where r2: "r2 = Inr u"
    by (cases r2) auto
  from Cons.prems f1 r1 si cp r2 have d: "\<not> d < 0"
    by (auto split: if_splits)
  from Cons.prems f1 r1 si cp r2 d
  have "fetch_loop net fmt E si d (Suc i) rest new1 (w2\<lparr>sleeps := sleeps w2 @ [d]\<rparr>) = (Inr N, w')"
    by simp
  from Cons.IH [OF this] c1 c2 show ?case by simp
qed

text \<open>
  When every record has a number as its ID, merging and the whole loop run to the end
  for a non-zero interval.
\<close>

lemma id_keys_numeric:
  "list_all numeric_id ts \<Longrightarrow> \<exists>ks. id_keys ts = Inr ks \<and> list_all (\<lambda>k. number k \<noteq> None) ks"
proof (induction ts)
  case Nil
  then show ?case by simp
next
  case (Cons t ts)
  from Cons.prems have "numeric_id t" and ts: "list_all numeric_id ts" by simp_all
  then obtain v where v: "subscript_id t = Inr v" "number v \<noteq> None"
    by (auto simp: numeric_id_def split: sum.splits)
  from Cons.IH [OF ts] obtain ks where "id_keys ts = Inr ks" "list_all (\<lambda>k. number k \<noteq> None) ks"
    by blast
  with v show ?case by simp
qed

lemma merge_sorted_total:
  assumes "list_all numeric_id (E @ N)"
  shows "merge_sorted (JList E) N =
           Inr (if length (E @ N) \<le> 1 then E @ N else sort_key (\<lambda>t. - id_number t) (E @ N))"
proof -
  from id_keys_numeric [OF assms] obtain ks
    where "id_keys (E @ N) = Inr ks" "list_all (\<lambda>k. number k \<noteq> None) ks"
    by blast
  then show ?thesis
    by (simp add: merge_sorted_def sort_by_id_desc_def)
qed

lemma sort_by_id_desc_mset: "sort_by_id_desc ts = Inr R \<Longrightarrow> mset R = mset ts"
  by (auto simp: sort_by_id_desc_def split: sum.splits if_splits)

lemma merge_sorted_mset:
  assumes "merge_sorted X N = Inr R"
  shows "\<exists>E. X = JList E \<and> mset R = mset E + mset N"
proof (cases X)
  case (JList E)
  with assms have "sort_by_id_desc (E @ N) = Inr R"
    by (simp add: merge_sorted_def)
  from sort_by_id_desc_mset [OF this] JList show ?thesis by simp
qed (use assms in \<open>simp_all add: merge_sorted_def\<close>)

lemma subscript_id_asdict: "subscript_id (asdict t) = Inr (id' t)"
  by (simp add: asdict_def)

lemma fetch_talk_details_result:
  "fst (fetch_talk_details net tid mr w) = JNull \<or>
   (\<exists>k status. net k (TalkUrl tid) = Response status (Some (fst (fetch_talk_details net tid mr w))))"
  unfolding fetch_talk_details_def by (rule retry_from_result)

lemma fetch_one_typed:
  assumes "well_typed net" "list_all numeric_id new"
  shows "\<exists>new1. fst (fetch_one net fmt tid new w) = Inr new1 \<and> list_all numeric_id new1"
proof -
  obtain r w1 where ft: "fetch_talk_details net tid 5 w = (r, w1)"
    by (cases "fetch_talk_details net tid 5 w")
  have ok: "payload_ok r"
  proof -
    from fetch_talk_details_result [of net tid 5 w] ft
    consider "r = JNull" | k status where "net k (TalkUrl tid) = Response status (Some r)"
      by auto
    then show ?thesis
    proof cases
      case 1
      then show ?thesis by (simp add: payload_ok_def)
    next
      case 2
      with assms(1) have "response_ok (Response status (Some r))"
        unfolding well_typed_def by metis
      then show ?thesis by simp
    qed
  qed
  show ?thesis
  proof (cases "truthy r")
    case False
    with ft assms(2) show ?thesis by (simp add: fetch_one_def)
  next
    case True
    with ok obtain data where r: "r = JObj data" and n: "number (dict_get data ''id'' (JInt 0)) \<noteq> None"
      by (auto simp: payload_ok_def split: json.splits)
    obtain talk where pt: "parse_talk fmt r = Inr talk" and idt: "id' talk = dict_get data ''id'' (JInt 0)"
      using r by simp
    have "numeric_id (asdict talk)"
      using n idt by (simp add: numeric_id_def subscript_id_asdict)
    with ft True pt assms(2) show ?thesis by (simp add: fetch_one_def)
  qed
qed

lemma checkpoint_total:
  assumes "list_all numeric_id (E @ new)"
  shows "\<exists>w'. checkpoint (JList E) new w = (Inr (), w')"
  using merge_sorted_total [OF assms] by (simp add: checkpoint_def)

lemma fetch_loop_total:
  assumes "si \<noteq> 0" "well_typed net" "list_all numeric_id E" "0 \<le> d"
  shows "list_all numeric_id new \<Longrightarrow>
         \<exists>N w'. fetch_loop net fmt (JList E) si d i ids new w = (Inr N, w') \<and> list_all numeric_id N"
proof (induction ids arbitrary: i new w)
  case Nil
  then show ?case by simp
next
  case (Cons tid rest)
  obtain r1 w1 where f1: "fetch_one net fmt tid new w = (r1, w1)"
    by (cases "fetch_one net fmt tid new w")
  from fetch_one_typed [OF assms(2) Cons.prems, of fmt tid w] f1
  obtain new1 where r1: "r1 = Inr new1" and t1: "list_all numeric_id new1"
    by auto
  have "\<exists>w2. (if (int i + 1) mod si = 0 then checkpoint (JList E) new1 w1 else (Inr (), w1)) = (Inr (), w2)"
    using checkpoint_total [of E new1 w1] assms(3) t1 by auto
  then obtain w2 where cp: "(if (int i + 1) mod si = 0 then checkpoint (JList E) new1 w1 else (Inr (), w1)) = (Inr (), w2)"
    by blast
  from Cons.IH [OF t1, of "Suc i" "w2\<lparr>sleeps := sleeps w2 @ [d]\<rparr>"]
  obtain N w' where "fetch_loop net fmt (JList E) si d (Suc i) rest new1 (w2\<lparr>sleeps := sleeps w2 @ [d]\<rparr>) = (Inr N, w')"
    and "list_all numeric_id N"
    by blast
  with f1 r1 cp assms(1,4) show ?case by simp
qed

lemma load_frame:
  assumes "load_existing_talks w = (r, w1)"
  shows "calls w1 = calls w" "gets w1 = gets w" "saves w1 = saves w" "talks_file w1 = talks_file w"
  using assms
  by (auto simp: load_existing_talks_def split: file_state.splits sum.splits if_splits)

lemma fetch_talk_ids_world:
  "snd (fetch_talk_ids net w) = w\<lparr>gets := gets w @ [TalksEndpoint]\<rparr>"
  by (simp add: fetch_talk_ids_def Let_def split: response.splits option.splits json.splits)

lemma run_with_new_ids:
  assumes si: "save_interval \<noteq> 0" and net: "well_typed net"
    and ld: "load_existing_talks w = (Inr (JList E, existing_ids), w1)"
    and E: "list_all numeric_id E"
    and ls: "fetch_talk_ids net w1 = (Inr all_ids, w2)"
    and dl: "0 \<le> delay_s"
  shows "\<exists>r w'. incremental_run net fmt limit delay_s save_interval w = (Inr r, w') \<and>
           new_ids r = limit_new_ids limit (filter (\<lambda>tid. \<not> py_in tid existing_ids) all_ids) \<and>
           calls w' = calls w @ new_ids r"
proof -
  let ?ids = "limit_new_ids limit (filter (\<lambda>tid. \<not> py_in tid existing_ids) all_ids)"
  have c2: "calls w2 = calls w"
    using load_frame(1) [OF ld] fetch_talk_ids_world [of net w1] ls by simp
  show ?thesis
  proof (cases "?ids = []")
    case True
    with ld ls c2 show ?thesis
      by (simp add: incremental_run_def)
  next
    case False
    from fetch_loop_total [OF si net E dl, where new = "[]" and fmt = fmt and i = 0
                             and ids = ?ids and w = w2]
    obtain N w3 where fl: "fetch_loop net fmt (JList E) save_interval delay_s 0 ?ids [] w2 = (Inr N, w3)"
      and N: "list_all numeric_id N"
      by auto
    from fetch_loop_calls [OF fl] c2 have c3: "calls w3 = calls w @ ?ids" by simp
    from E N have "list_all numeric_id (E @ N)" by simp
    from merge_sorted_total [OF this] obtain R where "merge_sorted (JList E) N = Inr R"
      by blast
    with ld ls False fl c3 show ?thesis
      by (simp add: incremental_run_def)
  qed
qed

text \<open>
  Cap enforcement, for a non-zero checkpoint interval, a delay that is not negative,
  numeric IDs in the snapshot and a remote whose non-empty payloads are objects with
  numeric IDs: with a limit \<open>k\<close> of
  at least 1 and more than \<open>k\<close> new IDs in the listing, the run ends normally and has
  passed to \<^verbatim>\<open>fetch_talk_details\<close> exactly the first \<open>k\<close> new IDs in listing order,
  none of them an ID of the snapshot.
\<close>

theorem cap_enforcement:
  assumes "save_interval \<noteq> 0" and "well_typed net"
    and "load_existing_talks w = (Inr (JList E, existing_ids), w1)"
    and "list_all numeric_id E"
    and "fetch_talk_ids net w1 = (Inr all_ids, w2)"
    and "0 < k" and "k < int (length (filter (\<lambda>tid. \<not> py_in tid existing_ids) all_ids))"
    and "0 \<le> delay_s"
  shows "\<exists>r w'. incremental_run net fmt (Some k) delay_s save_interval w = (Inr r, w') \<and>
           fetch_talks_incremental net fmt (Some k) delay_s save_interval w = (Inr (all_talks r), w') \<and>
           calls w' = calls w @ take (nat k) (filter (\<lambda>tid. \<not> py_in tid existing_ids) all_ids) \<and>
           length (take (nat k) (filter (\<lambda>tid. \<not> py_in tid existing_ids) all_ids)) = nat k \<and>
           list_all (\<lambda>tid. \<not> py_in tid existing_ids)
             (take (nat k) (filter (\<lambda>tid. \<not> py_in tid existing_ids) all_ids))"
proof -
  let ?new = "filter (\<lambda>tid. \<not> py_in tid existing_ids) all_ids"
  from assms(6,7) have lim: "limit_new_ids (Some k) ?new = take (nat k) ?new"
    by (simp add: limit_new_ids_def slice_to_def)
  from run_with_new_ids [OF assms(1-5) assms(8), where fmt = fmt and limit = "Some k"]
  obtain r w' where run: "incremental_run net fmt (Some k) delay_s save_interval w = (Inr r, w')"
    and "new_ids r = limit_new_ids (Some k) ?new" and "calls w' = calls w @ new_ids r"
    by blast
  with lim have c: "calls w' = calls w @ take (nat k) ?new" by simp
  from assms(6,7) have len: "length (take (nat k) ?new) = nat k" by simp
  have "list_all (\<lambda>tid. \<not> py_in tid existing_ids) ?new"
    by (simp add: list_all_iff)
  then have "list_all (\<lambda>tid. \<not> py_in tid existing_ids) (take (nat k) ?new)"
    by (auto simp: list_all_iff dest: in_set_takeD)
  with run c len show ?thesis
    by (simp add: fetch_talks_incremental_def)
qed

text \<open>
  A limit of \<^verbatim>\<open>None\<close> or 0 truncates nothing: under the same conditions the run
  passes every new ID of the listing to \<^verbatim>\<open>fetch_talk_details\<close>, and the command
  line maps \<^verbatim>\<open>--limit 0\<close> to \<^verbatim>\<open>None\<close>.
\<close>

theorem zero_cap_unlimited:
  assumes "save_interval \<noteq> 0" and "well_typed net"
    and "load_existing_talks w = (Inr (JList E, existing_ids), w1)"
    and "list_all numeric_id E"
    and "fetch_talk_ids net w1 = (Inr all_ids, w2)"
    and "limit = None \<or> limit = Some 0"
    and "0 \<le> delay_s"
  shows "cli_limit 0 = None \<and>
         (\<exists>r w'. incremental_run net fmt limit delay_s save_interval w = (Inr r, w') \<and>
           fetch_talks_incremental net fmt limit delay_s save_interval w = (Inr (all_talks r), w') \<and>
           new_ids r = filter (\<lambda>tid. \<not> py_in tid existing_ids) all_ids \<and>
           calls w' = calls w @ filter (\<lambda>tid. \<not> py_in tid existing_ids) all_ids)"
proof -
  let ?new = "filter (\<lambda>tid. \<not> py_in tid existing_ids) all_ids"
  from assms(6) have lim: "limit_new_ids limit ?new = ?new"
    by (auto simp: limit_new_ids_def)
  from run_with_new_ids [OF assms(1-5) assms(7), where fmt = fmt and limit = limit]
  obtain r w' where run: "incremental_run net fmt limit delay_s save_interval w = (Inr r, w')"
    and "new_ids r = limit_new_ids limit ?new" and "calls w' = calls w @ new_ids r"
    by blast
  with lim show ?thesis
    by (auto simp: fetch_talks_incremental_def cli_limit_def)
qed

lemma well_typed_echo: "well_typed echo"
  by (simp add: well_typed_def payload_ok_def dict_get_def)

text \<open>The hypotheses hold for a remote that lists 1, 2, 3 and answers every ID.\<close>

theorem cap_enforcement_witness:
  "(1::int) \<noteq> 0 \<and> well_typed echo \<and>
   load_existing_talks (world0 Absent) = (Inr (JList [], []), world0 Absent) \<and>
   list_all numeric_id [] \<and>
   fetch_talk_ids echo (world0 Absent) = (Inr [1, 2, 3], (world0 Absent)\<lparr>gets := [TalksEndpoint]\<rparr>) \<and>
   (0::int) < 2 \<and> 2 < int (length (filter (\<lambda>tid. \<not> py_in tid []) [1, 2, 3])) \<and>
   calls (snd (fetch_talks_incremental echo plain (Some 2) (3/10) 1 (world0 Absent))) = [1, 2]"
proof -
  have h1: "(1::int) \<noteq> 0" by simp
  have h3: "load_existing_talks (world0 Absent) = (Inr (JList [], []), world0 Absent)"
    by (simp add: load_existing_talks_def world0_def)
  have h4: "list_all numeric_id []" by simp
  have h5: "fetch_talk_ids echo (world0 Absent) = (Inr [1, 2, 3], (world0 Absent)\<lparr>gets := [TalksEndpoint]\<rparr>)"
    by (simp add: fetch_talk_ids_def world0_def)
  have h6: "(0::int) < 2" by simp
  have h7: "2 < int (length (filter (\<lambda>tid. \<not> py_in tid []) [1, 2, 3]))"
    by (simp add: py_in_def)
  have h8: "(0::rat) \<le> 3/10" by simp
  from cap_enforcement [OF h1 well_typed_echo h3 h4 h5 h6 h7 h8, where fmt = plain]
  have "calls (snd (fetch_talks_incremental echo plain (Some 2) (3/10) 1 (world0 Absent))) = [1, 2]"
    by (auto simp: py_in_def world0_def numeral_2_eq_2)
  with h1 well_typed_echo h3 h4 h5 h6 h7 show ?thesis by blast
qed

text \<open>
  C6. Cap enforcement says that with a limit of 2 and three new IDs exactly two detail
  fetches are attempted. With \<^verbatim>\<open>save_interval = 0\<close> the run stops after the first:
  \<^verbatim>\<open>(i + 1) % save_interval\<close> raises ZeroDivisionError in the first pass of the loop,
  after one call of \<^verbatim>\<open>fetch_talk_details\<close>.
\<close>

theorem cap_enforcement_zero_interval:
  "fst (fetch_talks_incremental echo plain (Some 2) (3/10) 0 (world0 Absent)) = Inl ZeroDivisionError \<and>
   calls (snd (fetch_talks_incremental echo plain (Some 2) (3/10) 0 (world0 Absent))) = [1]"
  by (simp add: fetch_talks_incremental_def incremental_run_def load_existing_talks_def world0_def
      fetch_talk_ids_def limit_new_ids_def slice_to_def py_in_def fetch_one_def fetch_talk_details_def
      retry_from.simps attempt_once_def)

text \<open>The same remote with a limit of 0 and with no limit.\<close>

theorem zero_cap_unlimited_witness:
  "(1::int) \<noteq> 0 \<and> well_typed echo \<and>
   load_existing_talks (world0 Absent) = (Inr (JList [], []), world0 Absent) \<and>
   list_all numeric_id [] \<and>
   fetch_talk_ids echo (world0 Absent) = (Inr [1, 2, 3], (world0 Absent)\<lparr>gets := [TalksEndpoint]\<rparr>) \<and>
   calls (snd (fetch_talks_incremental echo plain (Some 0) (3/10) 1 (world0 Absent))) = [1, 2, 3] \<and>
   calls (snd (fetch_talks_incremental echo plain None (3/10) 1 (world0 Absent))) = [1, 2, 3]"
proof -
  have h1: "(1::int) \<noteq> 0" by simp
  have h3: "load_existing_talks (world0 Absent) = (Inr (JList [], []), world0 Absent)"
    by (simp add: load_existing_talks_def world0_def)
  have h4: "list_all numeric_id []" by simp
  have h5: "fetch_talk_ids echo (world0 Absent) = (Inr [1, 2, 3], (world0 Absent)\<lparr>gets := [TalksEndpoint]\<rparr>)"
    by (simp add: fetch_talk_ids_def world0_def)
  have h6: "Some (0::int) = None \<or> Some (0::int) = Some 0" by simp
  have h6': "(None :: int option) = None \<or> (None :: int option) = Some 0" by simp
  have h8: "(0::rat) \<le> 3/10" by simp
  from zero_cap_unlimited [OF h1 well_typed_echo h3 h4 h5 h6 h8, where fmt = plain]
  have a: "calls (snd (fetch_talks_incremental echo plain (Some 0) (3/10) 1 (world0 Absent))) = [1, 2, 3]"
    by (auto simp: py_in_def world0_def)
  from zero_cap_unlimited [OF h1 well_typed_echo h3 h4 h5 h6' h8, where fmt = plain]
  have b: "calls (snd (fetch_talks_incremental echo plain None (3/10) 1 (world0 Absent))) = [1, 2, 3]"
    by (auto simp: py_in_def world0_def)
  from h1 well_typed_echo h3 h4 h5 a b show ?thesis by blast
qed

text \<open>
  C10. A limit of \<^verbatim>\<open>None\<close> (what \<^verbatim>\<open>--limit 0\<close> becomes) truncates nothing, so all
  three new IDs are due a detail fetch. With \<^verbatim>\<open>save_interval = 0\<close> only the first is
  attempted: the division by zero of the checkpoint test ends the run.
\<close>

theorem zero_cap_zero_interval:
  "fst (fetch_talks_incremental echo plain None (3/10) 0 (world0 Absent)) = Inl ZeroDivisionError \<and>
   calls (snd (fetch_talks_incremental echo plain None (3/10) 0 (world0 Absent))) = [1] \<and>
   fst (fetch_talk_ids echo (world0 Absent)) = Inr [1, 2, 3] \<and>
   cli_limit 0 = None"
  by (simp add: fetch_talks_incremental_def incremental_run_def load_existing_talks_def world0_def
      fetch_talk_ids_def limit_new_ids_def slice_to_def py_in_def fetch_one_def fetch_talk_details_def
      retry_from.simps attempt_once_def cli_limit_def)

text \<open>
  The loop keeps IDs unique when the remote lists each ID once and answers a request
  with the record of the requested ID.
\<close>

lemma unique_ids_mset:
  assumes "mset R = mset X"
  shows "unique_ids R = unique_ids X"
proof -
  from assms have s: "set R = set X" by (rule mset_eq_setD)
  from assms have "mset (map id_of R) = mset (map id_of X)" by simp
  then have "distinct (map id_of R) = distinct (map id_of X)"
    by (rule mset_eq_imp_distinct_iff)
  with s show ?thesis by (simp add: unique_ids_def list_all_iff)
qed

lemma int_id_numeric: "int_id t \<Longrightarrow> numeric_id t"
  by (auto simp: int_id_def numeric_id_def split: sum.splits json.splits)

lemma int_id_id_of: "int_id t \<Longrightarrow> subscript_id t = Inr (id_of t)"
  by (auto simp: int_id_def id_of_def split: sum.splits json.splits)

lemma id_set_int_ids:
  "list_all int_id ts \<Longrightarrow> id_set ts = Inr (map id_of ts)"
proof (induction ts)
  case Nil
  then show ?case by simp
next
  case (Cons t ts)
  from Cons.prems have t: "int_id t" and ts: "list_all int_id ts" by simp_all
  from t obtain n where "subscript_id t = Inr (JInt n)"
    by (auto simp: int_id_def split: sum.splits json.splits)
  with Cons.IH [OF ts] show ?case by (simp add: id_of_def)
qed

lemma fetch_one_answers:
  assumes "answers_with_id net" "fst (fetch_one net fmt tid new w) = Inr new1"
  shows "new1 = new \<or> (\<exists>t. new1 = new @ [t] \<and> subscript_id t = Inr (JInt tid))"
proof -
  obtain r w1 where ft: "fetch_talk_details net tid 5 w = (r, w1)"
    by (cases "fetch_talk_details net tid 5 w")
  show ?thesis
  proof (cases "truthy r")
    case False
    with ft assms(2) show ?thesis by (simp add: fetch_one_def)
  next
    case True
    then have "r \<noteq> JNull" by auto
    with fetch_talk_details_result [of net tid 5 w] ft
    obtain k status where "net k (TalkUrl tid) = Response status (Some r)"
      by auto
    with assms(1) True obtain data where r: "r = JObj data" and i: "map_of data ''id'' = Some (JInt tid)"
      unfolding answers_with_id_def by blast
    obtain talk where pt: "parse_talk fmt r = Inr talk" and idt: "id' talk = JInt tid"
      using r i by (simp add: dict_get_def)
    from ft True pt assms(2) have "new1 = new @ [asdict talk]"
      by (simp add: fetch_one_def)
    with idt show ?thesis by (simp add: subscript_id_asdict)
  qed
qed

lemma unique_ids_snoc:
  assumes "unique_ids ts" "subscript_id t = Inr (JInt n)" "JInt n \<notin> set (map id_of ts)"
  shows "unique_ids (ts @ [t])"
  using assms by (simp add: unique_ids_def int_id_def id_of_def)

lemma checkpoint_saves:
  assumes "unique_ids (E @ new)" "checkpoint (JList E) new w = (r, w')"
  shows "saves w' = saves w \<or> (\<exists>s. saves w' = saves w @ [s] \<and> saved_ok s)"
proof (cases "merge_sorted (JList E) new")
  case (Inl e)
  with assms(2) show ?thesis by (auto simp: checkpoint_def)
next
  case (Inr R)
  from merge_sorted_mset [OF Inr] have "mset R = mset (E @ new)" by simp
  from unique_ids_mset [OF this] assms(1) have "unique_ids R" by simp
  with Inr assms(2) show ?thesis
    by (auto simp: checkpoint_def save_talks_to_json_def)
qed

lemma fetch_loop_saves:
  assumes net: "answers_with_id net"
  shows "distinct ids \<Longrightarrow> \<forall>tid\<in>set ids. JInt tid \<notin> set (map id_of (E @ new)) \<Longrightarrow>
         unique_ids (E @ new) \<Longrightarrow>
         fetch_loop net fmt (JList E) si d i ids new w = (res, w') \<Longrightarrow>
         \<exists>ss. saves w' = saves w @ ss \<and> list_all saved_ok ss \<and>
              (\<forall>N. res = Inr N \<longrightarrow> unique_ids (E @ N))"
proof (induction ids arbitrary: i new w)
  case Nil
  then show ?case by auto
next
  case (Cons tid rest)
  obtain r1 w1 where f1: "fetch_one net fmt tid new w = (r1, w1)"
    by (cases "fetch_one net fmt tid new w")
  have s1: "saves w1 = saves w"
    using fetch_one_frame(2) [of net fmt tid new w] f1 by simp
  show ?case
  proof (cases r1)
    case (Inl e)
    with Cons.prems(4) f1 s1 show ?thesis by auto
  next
    case (Inr new1)
    from fetch_one_answers [OF net, of fmt tid new w new1] f1 Inr
    consider "new1 = new" | t where "new1 = new @ [t]" "subscript_id t = Inr (JInt tid)"
      by auto
    then have "unique_ids (E @ new1) \<and> (\<forall>x\<in>set rest. JInt x \<notin> set (map id_of (E @ new1)))"
    proof cases
      case 1
      with Cons.prems(2,3) show ?thesis by simp
    next
      case 2
      have nin: "JInt tid \<notin> set (map id_of (E @ new))"
        using Cons.prems(2) by simp
      from unique_ids_snoc [OF Cons.prems(3) 2(2) nin] 2(1) have a: "unique_ids (E @ new1)"
        by simp
      have "id_of t = JInt tid"
        using 2(2) by (simp add: id_of_def)
      with Cons.prems(1,2) 2(1) have "\<forall>x\<in>set rest. JInt x \<notin> set (map id_of (E @ new1))"
        by auto
      with a show ?thesis by simp
    qed
    then have u1: "unique_ids (E @ new1)"
      and fresh1: "\<forall>x\<in>set rest. JInt x \<notin> set (map id_of (E @ new1))"
      by simp_all
    show ?thesis
    proof (cases "si = 0")
      case True
      with Cons.prems(4) f1 Inr s1 show ?thesis by auto
    next
      case False
      obtain r2 w2 where cp: "(if (int i + 1) mod si = 0 then checkpoint (JList E) new1 w1 else (Inr (), w1)) = (r2, w2)"
        by (cases "(if (int i + 1) mod si = 0 then checkpoint (JList E) new1 w1 else (Inr (), w1))")
      have s2: "saves w2 = saves w \<or> (\<exists>s. saves w2 = saves w @ [s] \<and> saved_ok s)"
        using cp checkpoint_saves [OF u1, of w1 r2 w2] s1 by (auto split: if_splits)
      show ?thesis
      proof (cases r2)
        case (Inl e)
        with Cons.prems(4) f1 Inr False cp have "w' = w2" "res = Inl e" by auto
        with s2 show ?thesis by auto
      next
        case (Inr u)
        show ?thesis
        proof (cases "d < 0")
          case True
          with Cons.prems(4) f1 \<open>r1 = Inr new1\<close> False cp Inr
          have "w' = w2" "res = Inl ValueError" by auto
          with s2 show ?thesis by auto
        next
          case nonneg: False
          with Inr Cons.prems(4) f1 \<open>r1 = Inr new1\<close> False cp
          have rec: "fetch_loop net fmt (JList E) si d (Suc i) rest new1 (w2\<lparr>sleeps := sleeps w2 @ [d]\<rparr>) = (res, w')"
            by simp
          from Cons.prems(1) have dr: "distinct rest" by simp
          from Cons.IH [OF dr fresh1 u1 rec]
          obtain ss where "saves w' = saves w2 @ ss" "list_all saved_ok ss"
            "\<forall>N. res = Inr N \<longrightarrow> unique_ids (E @ N)"
            by auto
          with s2 show ?thesis by auto
        qed
      qed
    qed
  qed
qed

lemma limit_new_ids_sub:
  "set (limit_new_ids l xs) \<subseteq> set xs" "distinct xs \<Longrightarrow> distinct (limit_new_ids l xs)"
  by (auto simp: limit_new_ids_def slice_to_def split: option.splits dest: in_set_takeD)

lemma py_in_JInt: "JInt tid \<in> set vs \<Longrightarrow> py_in tid vs"
  by (auto simp: py_in_def list_ex_iff intro!: bexI [of _ "JInt tid"])

lemma load_prior:
  assumes "prior_ok (talks_file w)"
  shows "(\<exists>e. load_existing_talks w = (Inl e, w)) \<or>
         (\<exists>E w1. load_existing_talks w = (Inr (JList E, map id_of E), w1) \<and> unique_ids E \<and>
                  saves w1 = saves w)"
proof (cases "talks_file w")
  case (Decoded j)
  with assms obtain E where j: "j = JList E" and u: "unique_ids E"
    by (cases j) simp_all
  from u have "id_set E = Inr (map id_of E)"
    by (simp add: unique_ids_def id_set_int_ids)
  with Decoded j u show ?thesis
    by (simp add: load_existing_talks_def)
qed (simp_all add: load_existing_talks_def unique_ids_def)

lemma incremental_run_saves:
  assumes prior: "prior_ok (talks_file w)" and net: "answers_with_id net"
    and dl: "distinct_listing net"
    and run: "incremental_run net fmt limit d si w = (res, w')"
  shows "\<exists>ss. saves w' = saves w @ ss \<and> list_all saved_ok ss \<and>
              (\<forall>r. res = Inr r \<longrightarrow> saved_ok (all_talks r))"
proof -
  from load_prior [OF prior]
  consider e where "load_existing_talks w = (Inl e, w)"
    | E w1 where "load_existing_talks w = (Inr (JList E, map id_of E), w1)" "unique_ids E"
        "saves w1 = saves w"
    by blast
  then show ?thesis
  proof cases
    case 1
    with run show ?thesis by (auto simp: incremental_run_def)
  next
    case 2
    obtain r2 w2 where ls: "fetch_talk_ids net w1 = (r2, w2)"
      by (cases "fetch_talk_ids net w1")
    have s2: "saves w2 = saves w"
      using fetch_talk_ids_world [of net w1] ls 2(3) by simp
    show ?thesis
    proof (cases r2)
      case (Inl e)
      with run 2(1) ls s2 show ?thesis by (auto simp: incremental_run_def)
    next
      case (Inr all_ids)
      let ?new = "filter (\<lambda>tid. \<not> py_in tid (map id_of E)) all_ids"
      let ?ids = "limit_new_ids limit ?new"
      from dl ls Inr have "distinct all_ids"
        unfolding distinct_listing_def by (metis fst_conv)
      then have dn: "distinct ?ids"
        by (simp add: limit_new_ids_sub(2))
      have fresh: "\<forall>tid\<in>set ?ids. JInt tid \<notin> set (map id_of (E @ []))"
      proof
        fix tid assume "tid \<in> set ?ids"
        with limit_new_ids_sub(1) [of limit ?new] have "\<not> py_in tid (map id_of E)"
          by auto
        with py_in_JInt [of tid "map id_of E"] show "JInt tid \<notin> set (map id_of (E @ []))"
          by auto
      qed
      show ?thesis
      proof (cases "?ids = []")
        case True
        with run 2(1,2) ls Inr s2 show ?thesis
          by (auto simp: incremental_run_def)
      next
        case False
        obtain r3 w3 where fl: "fetch_loop net fmt (JList E) si d 0 ?ids [] w2 = (r3, w3)"
          by (cases "fetch_loop net fmt (JList E) si d 0 ?ids [] w2")
        from 2(2) have u0: "unique_ids (E @ [])" by simp
        from fetch_loop_saves [OF net dn fresh u0 fl] s2
        obtain ss where ss: "saves w3 = saves w @ ss" "list_all saved_ok ss"
          and uN: "\<forall>N. r3 = Inr N \<longrightarrow> unique_ids (E @ N)"
          by auto
        show ?thesis
        proof (cases r3)
          case (Inl e)
          with run 2(1) ls Inr False fl ss show ?thesis
            by (auto simp: incremental_run_def)
        next
          case (Inr N)
          with uN have u: "unique_ids (E @ N)" by simp
          show ?thesis
          proof (cases "merge_sorted (JList E) N")
            case (Inl e)
            with run 2(1) ls \<open>r2 = Inr all_ids\<close> False fl \<open>r3 = Inr N\<close> ss show ?thesis
              by (auto simp: incremental_run_def)
          next
            case (Inr R)
            from merge_sorted_mset [OF Inr] have "mset R = mset (E @ N)" by simp
            from unique_ids_mset [OF this] u have "unique_ids R" by simp
            with run 2(1) ls \<open>r2 = Inr all_ids\<close> False fl \<open>r3 = Inr N\<close> Inr ss show ?thesis
              by (auto simp: incremental_run_def)
          qed
        qed
      qed
    qed
  qed
qed

text \<open>
  C3 (as amended). When the prior snapshot is absent, unreadable or a list of records
  with pairwise different integer IDs, the listing names no ID twice and every
  non-empty detail payload carries the requested ID, then every snapshot the run
  writes, at each checkpoint and at the final save, is a list of records with pairwise
  different integer IDs.
\<close>

theorem unique_ids_preserved:
  assumes "prior_ok (talks_file w)" and "answers_with_id net" and "distinct_listing net"
    and "main net fmt a w = (res, w')"
  shows "\<exists>ss. saves w' = saves w @ ss \<and> list_all saved_ok ss"
proof -
  let ?w0 = "if arg_fresh a \<and> talks_file w \<noteq> Absent then w\<lparr>talks_file := Absent\<rparr> else w"
  have p0: "prior_ok (talks_file ?w0)" and s0: "saves ?w0 = saves w"
    using assms(1) by simp_all
  obtain r1 w1 where run: "incremental_run net fmt (cli_limit (arg_limit a)) (arg_delay a)
      (arg_save_interval a) ?w0 = (r1, w1)"
    by (cases "incremental_run net fmt (cli_limit (arg_limit a)) (arg_delay a) (arg_save_interval a) ?w0")
  from incremental_run_saves [OF p0 assms(2,3) run] s0
  obtain ss where ss: "saves w1 = saves w @ ss" "list_all saved_ok ss"
    and fin: "\<forall>r. r1 = Inr r \<longrightarrow> saved_ok (all_talks r)"
    by auto
  show ?thesis
  proof (cases r1)
    case (Inl e)
    with assms(4) run ss show ?thesis
      by (auto simp: main_def run_and_save_def fetch_talks_incremental_def Let_def)
  next
    case (Inr r)
    with fin have "saved_ok (all_talks r)" by simp
    with assms(4) run Inr ss have "saves w' = saves w @ (ss @ [all_talks r])"
      "list_all saved_ok (ss @ [all_talks r])"
      by (auto simp: main_def run_and_save_def fetch_talks_incremental_def Let_def
            save_talks_to_json_def)
    then show ?thesis by blast
  qed
qed

lemma run_shape:
  assumes "incremental_run net fmt limit d si w = (Inr r, w')"
  shows "(\<exists>ids w1. load_existing_talks w = (Inr (existing_talks r, ids), w1)) \<and>
         ((new_talks r = [] \<and> all_talks r = existing_talks r) \<or>
          (\<exists>R. merge_sorted (existing_talks r) (new_talks r) = Inr R \<and> all_talks r = JList R))"
  using assms
  by (auto simp: incremental_run_def Let_def split: prod.splits sum.splits if_splits)

text \<open>
  C1. For a run that returns, with \<open>E\<close> the list loaded from the file and \<open>N\<close> the
  records fetched in this run: the result holds exactly the records of \<open>E\<close> and \<open>N\<close>
  (equal as multisets, so none is dropped and none is added), its set of IDs is the
  union of theirs, and when the IDs of \<open>E\<close> are pairwise different, those of \<open>N\<close> are
  pairwise different and the two sets are disjoint, the result has one record per ID.
\<close>

theorem no_loss_merge:
  assumes "incremental_run net fmt limit d si w = (Inr r, w')"
    and "existing_talks r = JList E"
  shows "\<exists>R. fetch_talks_incremental net fmt limit d si w = (Inr (JList R), w') \<and>
             (\<exists>ids w1. load_existing_talks w = (Inr (JList E, ids), w1)) \<and>
             mset R = mset E + mset (new_talks r) \<and>
             set (map id_of R) = set (map id_of E) \<union> set (map id_of (new_talks r)) \<and>
             (distinct (map id_of E) \<and> distinct (map id_of (new_talks r)) \<and>
              set (map id_of E) \<inter> set (map id_of (new_talks r)) = {}
                \<longrightarrow> distinct (map id_of R))"
proof -
  from run_shape [OF assms(1)] assms(2)
  have ld: "\<exists>ids w1. load_existing_talks w = (Inr (JList E, ids), w1)"
    and sh: "(new_talks r = [] \<and> all_talks r = JList E) \<or>
             (\<exists>R. merge_sorted (JList E) (new_talks r) = Inr R \<and> all_talks r = JList R)"
    by auto
  from sh obtain R where R: "all_talks r = JList R" and m: "mset R = mset (E @ new_talks r)"
  proof
    assume "new_talks r = [] \<and> all_talks r = JList E"
    then show ?thesis by (intro that [of E]) simp_all
  next
    assume "\<exists>R. merge_sorted (JList E) (new_talks r) = Inr R \<and> all_talks r = JList R"
    then obtain R where "merge_sorted (JList E) (new_talks r) = Inr R" "all_talks r = JList R"
      by blast
    with merge_sorted_mset [of "JList E" "new_talks r" R] show ?thesis
      by (intro that [of R]) simp_all
  qed
  from m have mm: "mset (map id_of R) = mset (map id_of (E @ new_talks r))" by simp
  from mm have st: "set (map id_of R) = set (map id_of E) \<union> set (map id_of (new_talks r))"
    by (metis map_append mset_eq_setD set_append)
  from mm have "distinct (map id_of R) = distinct (map id_of (E @ new_talks r))"
    by (rule mset_eq_imp_distinct_iff)
  then have di: "distinct (map id_of E) \<and> distinct (map id_of (new_talks r)) \<and>
              set (map id_of E) \<inter> set (map id_of (new_talks r)) = {}
                \<longrightarrow> distinct (map id_of R)"
    by simp
  from assms(1) R have "fetch_talks_incremental net fmt limit d si w = (Inr (JList R), w')"
    by (simp add: fetch_talks_incremental_def)
  with ld m st di show ?thesis by auto
qed

text \<open>A loop over \<open>xs @ ys\<close> is the loop over \<open>xs\<close> followed by the loop over \<open>ys\<close>.\<close>

lemma fetch_loop_append:
  "fetch_loop net fmt E si d i xs new w = (Inr N, w1) \<Longrightarrow>
   fetch_loop net fmt E si d i (xs @ ys) new w = fetch_loop net fmt E si d (i + length xs) ys N w1"
proof (induction xs arbitrary: i new w)
  case Nil
  then show ?case by simp
next
  case (Cons x xs)
  obtain r1 wa where f1: "fetch_one net fmt x new w = (r1, wa)"
    by (cases "fetch_one net fmt x new w")
  from Cons.prems f1 obtain new1 where r1: "r1 = Inr new1"
    by (cases r1) auto
  from Cons.prems f1 r1 have si: "si \<noteq> 0"
    by (auto split: if_splits)
  obtain r2 wb where cp: "(if (int i + 1) mod si = 0 then checkpoint E new1 wa else (Inr (), wa)) = (r2, wb)"
    by (cases "(if (int i + 1) mod si = 0 then checkpoint E new1 wa else (Inr (), wa))")
  from Cons.prems f1 r1 si cp obtain u where r2: "r2 = Inr u"
    by (cases r2) auto
  from Cons.prems f1 r1 si cp r2 have d: "\<not> d < 0"
    by (auto split: if_splits)
  from Cons.prems f1 r1 si cp r2 d
  have "fetch_loop net fmt E si d (Suc i) xs new1 (wb\<lparr>sleeps := sleeps wb @ [d]\<rparr>) = (Inr N, w1)"
    by simp
  from Cons.IH [OF this] f1 r1 si cp r2 d show ?case by simp
qed

lemma sort_by_id_desc_sorted:
  "sort_by_id_desc ts = Inr R \<Longrightarrow> sorted (map (\<lambda>t. - id_number t) R)"
  by (auto simp: sort_by_id_desc_def sorted01 split: sum.splits if_splits)

lemma merge_sorted_sorted:
  "merge_sorted X N = Inr R \<Longrightarrow> sorted (map (\<lambda>t. - id_number t) R)"
  by (cases X) (auto simp: merge_sorted_def dest: sort_by_id_desc_sorted)

lemma checkpoint_file:
  assumes "checkpoint E new w = (Inr u, w')"
  shows "\<exists>R. merge_sorted E new = Inr R \<and> talks_file w' = Decoded (JList R) \<and>
             saves w' = saves w @ [JList R]"
  using assms by (auto simp: checkpoint_def save_talks_to_json_def split: sum.splits)

lemma fetch_loop_checkpoint:
  "fetch_loop net fmt E si d i xs new w = (Inr N, w1) \<Longrightarrow> xs \<noteq> [] \<Longrightarrow>
   (int i + int (length xs)) mod si = 0 \<Longrightarrow>
   \<exists>R. merge_sorted E N = Inr R \<and> talks_file w1 = Decoded (JList R) \<and> last (saves w1) = JList R
        \<and> saves w1 \<noteq> []"
proof (induction xs arbitrary: i new w)
  case Nil
  then show ?case by simp
next
  case (Cons x xs)
  obtain r1 wa where f1: "fetch_one net fmt x new w = (r1, wa)"
    by (cases "fetch_one net fmt x new w")
  from Cons.prems(1) f1 obtain new1 where r1: "r1 = Inr new1"
    by (cases r1) auto
  from Cons.prems(1) f1 r1 have si: "si \<noteq> 0"
    by (auto split: if_splits)
  obtain r2 wb where cp: "(if (int i + 1) mod si = 0 then checkpoint E new1 wa else (Inr (), wa)) = (r2, wb)"
    by (cases "(if (int i + 1) mod si = 0 then checkpoint E new1 wa else (Inr (), wa))")
  from Cons.prems(1) f1 r1 si cp obtain u where r2: "r2 = Inr u"
    by (cases r2) auto
  from Cons.prems(1) f1 r1 si cp r2 have d: "\<not> d < 0"
    by (auto split: if_splits)
  from Cons.prems(1) f1 r1 si cp r2 d
  have rec: "fetch_loop net fmt E si d (Suc i) xs new1 (wb\<lparr>sleeps := sleeps wb @ [d]\<rparr>) = (Inr N, w1)"
    by simp
  show ?case
  proof (cases xs)
    case Nil
    with rec have N: "N = new1" and w1: "w1 = wb\<lparr>sleeps := sleeps wb @ [d]\<rparr>" by simp_all
    from Nil Cons.prems(3) have "(int i + 1) mod si = 0" by simp
    with cp r2 have "checkpoint E new1 wa = (Inr u, wb)" by simp
    from checkpoint_file [OF this] N w1 show ?thesis by auto
  next
    case (Cons y ys)
    then have ne: "xs \<noteq> []" by simp
    have "int i + int (length (x # xs)) = int (Suc i) + int (length xs)"
      by simp
    with Cons.prems(3) have "(int (Suc i) + int (length xs)) mod si = 0"
      by (simp only:)
    from Cons.IH [OF rec ne this] show ?thesis .
  qed
qed

text \<open>
  C4 (as amended). When the loop has gone through a number of detail-fetch attempts
  that is a multiple of \<^verbatim>\<open>save_interval\<close>, successful or not, the file holds the
  merged and sorted state at that moment: all existing records and all records
  fetched so far, by ID descending. That state is the state from which every longer
  run goes on.
\<close>

theorem checkpoint_cadence:
  assumes "fetch_loop net fmt existing save_interval delay_s 0 xs [] w = (Inr N, w1)"
    and "xs \<noteq> []" and "int (length xs) mod save_interval = 0"
  shows "\<exists>R. merge_sorted existing N = Inr R \<and>
             talks_file w1 = Decoded (JList R) \<and> last (saves w1) = JList R \<and>
             (\<exists>E. existing = JList E \<and> mset R = mset E + mset N) \<and>
             sorted (map (\<lambda>t. - id_number t) R) \<and>
             (\<forall>ys. fetch_loop net fmt existing save_interval delay_s 0 (xs @ ys) [] w =
                    fetch_loop net fmt existing save_interval delay_s (length xs) ys N w1)"
proof -
  from assms(3) have "(int 0 + int (length xs)) mod save_interval = 0" by simp
  from fetch_loop_checkpoint [OF assms(1,2) this]
  obtain R where R: "merge_sorted existing N = Inr R" "talks_file w1 = Decoded (JList R)"
    "last (saves w1) = JList R"
    by blast
  have "\<forall>ys. fetch_loop net fmt existing save_interval delay_s 0 (xs @ ys) [] w =
             fetch_loop net fmt existing save_interval delay_s (length xs) ys N w1"
    using fetch_loop_append [OF assms(1)] by simp
  with R merge_sorted_mset [OF R(1)] merge_sorted_sorted [OF R(1)] show ?thesis
    by blast
qed

text \<open>The definitions a concrete run unfolds.\<close>

lemmas run_defs =
  main_def run_and_save_def summary_def min_max_def cli_limit_def fetch_talks_incremental_def incremental_run_def load_existing_talks_def
  world0_def fetch_talk_ids_def limit_new_ids_def slice_to_def py_in_def fetch_one_def
  fetch_talk_details_def retry_from.simps attempt_once_def on_request_exception_def
  checkpoint_def merge_sorted_def
  sort_by_id_desc_def id_number_def save_talks_to_json_def asdict_def dict_get_def
  bare_talk_def args0_def stored9_def after_first_run_def Let_def

lemma first_run: "main echo plain args0 (world0 Absent) = (Inr (), after_first_run)"
  by (simp add: run_defs)

lemma first_run_saved:
  "run_and_save echo plain args0 (world0 Absent) =
     (Inr (JList [bare_talk 3, bare_talk 2, bare_talk 1]), after_first_run)"
  by (simp add: run_defs)

text \<open>
  A negative delay ends a run after the first detail fetch: \<^verbatim>\<open>time.sleep\<close> raises a
  ValueError at the end of the first pass of the loop.
\<close>

lemma negative_delay_raises:
  "fst (fetch_talks_incremental echo plain (Some 2) (- 1) 1 (world0 Absent)) = Inl ValueError \<and>
   calls (snd (fetch_talks_incremental echo plain (Some 2) (- 1) 1 (world0 Absent))) = [1]"
  by (simp add: run_defs)

text \<open>
  The summary can raise after the final save: a stored record without
  \<^verbatim>\<open>teacher_id\<close> is merged, saved, and then missed by \<^verbatim>\<open>t['teacher_id']\<close>.
\<close>

lemma summary_raises_after_save:
  "fst (main echo plain args0 (world0 (Decoded (JList [stored9])))) = Inl KeyError \<and>
   talks_file (snd (main echo plain args0 (world0 (Decoded (JList [stored9]))))) =
     Decoded (JList [stored9, bare_talk 3, bare_talk 2, bare_talk 1])"
  by (simp add: run_defs)

text \<open>
  C3 as stated fails: for a listing that names ID 7 twice and no prior snapshot, the
  record is fetched twice and the final save holds two records with ID 7.
\<close>

theorem unique_ids_counterexample:
  "saves (snd (main twins plain args0 (world0 Absent))) = [JList [bare_talk 7, bare_talk 7]] \<and>
   id_of (bare_talk 7) = JInt 7"
  by (simp add: run_defs id_of_def)

text \<open>
  C4 as stated fails: with \<^verbatim>\<open>save_interval = 2\<close> and IDs 1, 2, 3 of which the first
  fetch fails (status 500 on all five tries), the only checkpoint comes after the second attempt
  and holds one fetched record; after the second successful fetch (the third attempt)
  nothing is written by the loop, though two records have been fetched.
\<close>

theorem checkpoint_cadence_counterexample:
  "fst (fetch_talks_incremental flaky plain None (3 / 10) 2 (world0 Absent)) =
     Inr (JList [bare_talk 3, bare_talk 2]) \<and>
   saves (snd (fetch_talks_incremental flaky plain None (3 / 10) 2 (world0 Absent))) =
     [JList [bare_talk 2]]"
  by (simp add: run_defs)

lemma loop_two:
  "fetch_loop echo plain (JList []) 2 (3 / 10) 0 [1, 2] [] (world0 Absent) =
     (Inr [bare_talk 1, bare_talk 2],
      \<lparr>talks_file = Decoded (JList [bare_talk 2, bare_talk 1]),
       gets = [TalkUrl 1, TalkUrl 2], sleeps = [3 / 10, 3 / 10],
       saves = [JList [bare_talk 2, bare_talk 1]], warnings = [], calls = [1, 2]\<rparr>)"
  by (simp add: run_defs)

lemma run_over_stored:
  "incremental_run echo plain None (3 / 10) 2 (world0 (Decoded (JList [stored9]))) =
     (Inr \<lparr>existing_talks = JList [stored9], new_ids = [1, 2, 3],
           new_talks = [bare_talk 1, bare_talk 2, bare_talk 3],
           all_talks = JList [stored9, bare_talk 3, bare_talk 2, bare_talk 1]\<rparr>,
      \<lparr>talks_file = Decoded (JList [stored9, bare_talk 2, bare_talk 1]),
       gets = [TalksEndpoint, TalkUrl 1, TalkUrl 2, TalkUrl 3],
       sleeps = [3 / 10, 3 / 10, 3 / 10],
       saves = [JList [stored9, bare_talk 2, bare_talk 1]], warnings = [], calls = [1, 2, 3]\<rparr>)"
  by (simp add: run_defs)

text \<open>
  Every record of a snapshot that a run has written has a hashable ID when the remote
  is well typed, so the loader takes the file as it is.
\<close>

lemma id_set_loadable: "list_all loadable ts \<Longrightarrow> id_set ts = Inr (map id_of ts)"
  by (induction ts) (auto simp: loadable_def id_of_def split: sum.splits)

lemma id_set_Inr_loadable: "id_set ts = Inr ids \<Longrightarrow> list_all loadable ts"
  by (induction ts arbitrary: ids) (auto simp: loadable_def split: sum.splits if_splits)

lemma numeric_loadable: "numeric_id t \<Longrightarrow> loadable t"
proof -
  assume "numeric_id t"
  then obtain v where v: "subscript_id t = Inr v" "number v \<noteq> None"
    by (auto simp: numeric_id_def split: sum.splits)
  from v(2) have "hashable v" by (cases v) simp_all
  with v(1) show ?thesis by (simp add: loadable_def)
qed

text \<open>What the loader hands back can be iterated, and every record of it is loadable.\<close>

lemma load_result:
  assumes "load_existing_talks w = (Inr (j, ids), w1)"
  shows "\<exists>ts. iter_values j = Inr ts \<and> list_all loadable ts"
  using assms
  by (auto simp: load_existing_talks_def dest: id_set_Inr_loadable
           split: file_state.splits sum.splits if_splits)

lemma fetch_loop_numeric:
  assumes "well_typed net"
  shows "list_all numeric_id new \<Longrightarrow> fetch_loop net fmt E si d i ids new w = (Inr N, w') \<Longrightarrow>
         list_all numeric_id N"
proof (induction ids arbitrary: i new w)
  case Nil
  then show ?case by simp
next
  case (Cons tid rest)
  obtain r1 w1 where f1: "fetch_one net fmt tid new w = (r1, w1)"
    by (cases "fetch_one net fmt tid new w")
  from fetch_one_typed [OF assms Cons.prems(1), of fmt tid w] f1
  obtain new1 where r1: "r1 = Inr new1" and t1: "list_all numeric_id new1"
    by auto
  from Cons.prems(2) f1 r1 have si: "si \<noteq> 0"
    by (auto split: if_splits)
  obtain r2 w2 where cp: "(if (int i + 1) mod si = 0 then checkpoint E new1 w1 else (Inr (), w1)) = (r2, w2)"
    by (cases "(if (int i + 1) mod si = 0 then checkpoint E new1 w1 else (Inr (), w1))")
  from Cons.prems(2) f1 r1 si cp obtain u where r2: "r2 = Inr u"
    by (cases r2) auto
  from Cons.prems(2) f1 r1 si cp r2 have d: "\<not> d < 0"
    by (auto split: if_splits)
  from Cons.prems(2) f1 r1 si cp r2 d
  have "fetch_loop net fmt E si d (Suc i) rest new1 (w2\<lparr>sleeps := sleeps w2 @ [d]\<rparr>) = (Inr N, w')"
    by simp
  from Cons.IH [OF t1 this] show ?case .
qed

lemma run_new_talks_numeric:
  assumes "incremental_run net fmt limit d si w = (Inr r, w')" and "well_typed net"
  shows "list_all numeric_id (new_talks r)"
proof -
  from assms(1) consider "new_talks r = []"
    | existing w2 w3 where "fetch_loop net fmt existing si d 0 (new_ids r) [] w2 = (Inr (new_talks r), w3)"
    by (auto simp: incremental_run_def Let_def split: prod.splits sum.splits if_splits)
  then show ?thesis
  proof cases
    case 1
    then show ?thesis by simp
  next
    case 2
    from fetch_loop_numeric [OF assms(2) _ 2] show ?thesis by simp
  qed
qed

lemma saved_snapshot:
  assumes "run_and_save net fmt a w0 = (Inr talks, w)" and "well_typed net"
  shows "talks_file w = Decoded talks \<and> (\<exists>ts. iter_values talks = Inr ts \<and> list_all loadable ts)"
proof -
  let ?w0 = "if arg_fresh a \<and> talks_file w0 \<noteq> Absent then w0\<lparr>talks_file := Absent\<rparr> else w0"
  from assms(1) obtain r w1
    where run: "incremental_run net fmt (cli_limit (arg_limit a)) (arg_delay a) (arg_save_interval a) ?w0
                  = (Inr r, w1)"
      and t: "talks = all_talks r" and w: "w = save_talks_to_json (all_talks r) w1"
    by (auto simp: run_and_save_def fetch_talks_incremental_def Let_def split: prod.splits sum.splits)
  from w t have f: "talks_file w = Decoded talks"
    by (simp add: save_talks_to_json_def)
  from run_shape [OF run] obtain ids wa
    where ld: "load_existing_talks ?w0 = (Inr (existing_talks r, ids), wa)"
      and sh: "(new_talks r = [] \<and> all_talks r = existing_talks r) \<or>
               (\<exists>R. merge_sorted (existing_talks r) (new_talks r) = Inr R \<and> all_talks r = JList R)"
    by blast
  from load_result [OF ld] obtain es
    where es: "iter_values (existing_talks r) = Inr es" "list_all loadable es"
    by blast
  from sh have "\<exists>ts. iter_values (all_talks r) = Inr ts \<and> list_all loadable ts"
  proof
    assume "new_talks r = [] \<and> all_talks r = existing_talks r"
    with es show ?thesis by simp
  next
    assume "\<exists>R. merge_sorted (existing_talks r) (new_talks r) = Inr R \<and> all_talks r = JList R"
    then obtain R where m: "merge_sorted (existing_talks r) (new_talks r) = Inr R"
      and R: "all_talks r = JList R"
      by blast
    from merge_sorted_mset [OF m] obtain E
      where E: "existing_talks r = JList E" and ms: "mset R = mset (E @ new_talks r)"
      by auto
    from E es have "list_all loadable E" by simp
    moreover from run_new_talks_numeric [OF run assms(2)] have "list_all loadable (new_talks r)"
      by (auto simp: list_all_iff intro: numeric_loadable)
    ultimately have "list_all loadable (E @ new_talks r)" by simp
    with mset_eq_setD [OF ms] have "list_all loadable R"
      by (simp add: list_all_iff)
    with R show ?thesis by simp
  qed
  with f t show ?thesis by simp
qed

lemma load_saved:
  assumes "talks_file w = Decoded j" "iter_values j = Inr ts" "list_all loadable ts"
  shows "load_existing_talks w = (Inr (j, snapshot_ids j), w)"
  using assms id_set_loadable [OF assms(3)]
  by (simp add: load_existing_talks_def snapshot_ids_def)

text \<open>
  C2. Let a first run, against a well-typed remote, reach its final save, and let a
  second run, without \<^verbatim>\<open>--fresh\<close>, get a listing with no ID outside the snapshot
  that the first run saved. Then the file holds that snapshot when the second run
  starts, and the second run writes the same value again (\<^verbatim>\<open>json.dump\<close> of one
  value gives one text), issues the listing request only, calls
  \<^verbatim>\<open>fetch_talk_details\<close> not once, and ends as the summary of the snapshot ends.
\<close>

theorem rerun_idempotent:
  assumes "run_and_save net0 fmt0 a0 w0 = (Inr snapshot, w)"
    and "well_typed net0"
    and "fetch_talk_ids net w = (Inr all_ids, w3)"
    and "list_all (\<lambda>tid. py_in tid (snapshot_ids snapshot)) all_ids"
    and "\<not> arg_fresh a"
  shows "talks_file w = Decoded snapshot \<and>
         (\<exists>w'. main net fmt a w = (summary snapshot, w') \<and>
               talks_file w' = talks_file w \<and> saves w' = saves w @ [snapshot] \<and>
               gets w' = gets w @ [TalksEndpoint] \<and> calls w' = calls w)"
proof -
  from saved_snapshot [OF assms(1,2)] obtain ts
    where f: "talks_file w = Decoded snapshot"
      and it: "iter_values snapshot = Inr ts" "list_all loadable ts"
    by blast
  from load_saved [OF f it]
  have ld: "load_existing_talks w = (Inr (snapshot, snapshot_ids snapshot), w)" .
  have w3: "w3 = w\<lparr>gets := gets w @ [TalksEndpoint]\<rparr>"
    using fetch_talk_ids_world [of net w] assms(3) by simp
  from assms(4) have none: "filter (\<lambda>tid. \<not> py_in tid (snapshot_ids snapshot)) all_ids = []"
    by (simp add: list_all_iff filter_empty_conv)
  have lim: "limit_new_ids (cli_limit (arg_limit a)) [] = []"
    by (simp add: limit_new_ids_def slice_to_def split: option.splits)
  from ld assms(3,5) none lim
  have "main net fmt a w = (summary snapshot, save_talks_to_json snapshot w3)"
    by (simp add: main_def run_and_save_def fetch_talks_incremental_def incremental_run_def)
  with f w3 show ?thesis
    by (simp add: save_talks_to_json_def)
qed

lemma listing_after_first_run:
  "fetch_talk_ids echo after_first_run =
     (Inr [1, 2, 3], after_first_run\<lparr>gets := gets after_first_run @ [TalksEndpoint]\<rparr>)"
  by (simp add: run_defs)

text \<open>A first run against a remote that lists 1, 2, 3, then a second run.\<close>

theorem rerun_idempotent_witness:
  "run_and_save echo plain args0 (world0 Absent) =
     (Inr (JList [bare_talk 3, bare_talk 2, bare_talk 1]), after_first_run) \<and>
   fetch_talk_ids echo after_first_run =
     (Inr [1, 2, 3], after_first_run\<lparr>gets := gets after_first_run @ [TalksEndpoint]\<rparr>) \<and>
   list_all (\<lambda>tid. py_in tid (snapshot_ids (JList [bare_talk 3, bare_talk 2, bare_talk 1]))) [1, 2, 3] \<and>
   \<not> arg_fresh args0 \<and>
   main echo plain args0 after_first_run =
     (Inr (), after_first_run
        \<lparr>gets := gets after_first_run @ [TalksEndpoint],
         saves := saves after_first_run @ [JList [bare_talk 3, bare_talk 2, bare_talk 1]]\<rparr>)"
proof -
  have h4: "list_all (\<lambda>tid. py_in tid (snapshot_ids (JList [bare_talk 3, bare_talk 2, bare_talk 1])))
              [1, 2, 3]"
    by (simp add: py_in_def snapshot_ids_def id_of_def bare_talk_def)
  have h5: "\<not> arg_fresh args0" by (simp add: args0_def)
  from rerun_idempotent [OF first_run_saved well_typed_echo listing_after_first_run h4 h5,
      where fmt = plain]
  obtain w' where "main echo plain args0 after_first_run =
        (summary (JList [bare_talk 3, bare_talk 2, bare_talk 1]), w')"
    and "talks_file w' = talks_file after_first_run"
    and "saves w' = saves after_first_run @ [JList [bare_talk 3, bare_talk 2, bare_talk 1]]"
    and "gets w' = gets after_first_run @ [TalksEndpoint]"
    and "calls w' = calls after_first_run"
    by blast
  moreover have "main echo plain args0 after_first_run =
     (Inr (), after_first_run
        \<lparr>gets := gets after_first_run @ [TalksEndpoint],
         saves := saves after_first_run @ [JList [bare_talk 3, bare_talk 2, bare_talk 1]]\<rparr>)"
    by (simp add: run_defs)
  ultimately show ?thesis
    using first_run_saved listing_after_first_run h4 h5 by blast
qed

lemma answers_with_id_echo: "answers_with_id echo"
  by (auto simp: answers_with_id_def)

lemma distinct_listing_echo: "distinct_listing echo"
  by (auto simp: distinct_listing_def fetch_talk_ids_def)

text \<open>The same first run, for the invariant of unique IDs.\<close>

theorem unique_ids_preserved_witness:
  "prior_ok (talks_file (world0 Absent)) \<and>
   main echo plain args0 (world0 Absent) = (Inr (), after_first_run) \<and>
   list_all saved_ok (saves after_first_run)"
proof -
  have h1: "prior_ok (talks_file (world0 Absent))" by (simp add: world0_def)
  from unique_ids_preserved [OF h1 answers_with_id_echo distinct_listing_echo first_run]
  have "list_all saved_ok (saves after_first_run)"
    by (auto simp: world0_def)
  with h1 first_run show ?thesis by blast
qed

text \<open>Two attempts with an interval of 2: the file holds both records, newest first.\<close>

theorem checkpoint_cadence_witness:
  "fetch_loop echo plain (JList []) 2 (3 / 10) 0 [1, 2] [] (world0 Absent) =
     (Inr [bare_talk 1, bare_talk 2],
      \<lparr>talks_file = Decoded (JList [bare_talk 2, bare_talk 1]),
       gets = [TalkUrl 1, TalkUrl 2], sleeps = [3 / 10, 3 / 10],
       saves = [JList [bare_talk 2, bare_talk 1]], warnings = [], calls = [1, 2]\<rparr>) \<and>
   [1, 2] \<noteq> ([] :: int list) \<and> int (length [1 :: int, 2]) mod 2 = 0 \<and>
   merge_sorted (JList []) [bare_talk 1, bare_talk 2] = Inr [bare_talk 2, bare_talk 1]"
proof -
  have h2: "[1, 2] \<noteq> ([] :: int list)" by simp
  have h3: "int (length [1 :: int, 2]) mod 2 = 0" by simp
  from checkpoint_cadence [OF loop_two h2 h3]
  have "merge_sorted (JList []) [bare_talk 1, bare_talk 2] = Inr [bare_talk 2, bare_talk 1]"
    by auto
  with loop_two h2 h3 show ?thesis by blast
qed

text \<open>A stored record with ID 9 and three fetched records.\<close>

theorem no_loss_merge_witness:
  "incremental_run echo plain None (3 / 10) 2 (world0 (Decoded (JList [stored9]))) =
     (Inr \<lparr>existing_talks = JList [stored9], new_ids = [1, 2, 3],
           new_talks = [bare_talk 1, bare_talk 2, bare_talk 3],
           all_talks = JList [stored9, bare_talk 3, bare_talk 2, bare_talk 1]\<rparr>,
      \<lparr>talks_file = Decoded (JList [stored9, bare_talk 2, bare_talk 1]),
       gets = [TalksEndpoint, TalkUrl 1, TalkUrl 2, TalkUrl 3],
       sleeps = [3 / 10, 3 / 10, 3 / 10],
       saves = [JList [stored9, bare_talk 2, bare_talk 1]], warnings = [], calls = [1, 2, 3]\<rparr>) \<and>
   distinct (map id_of [stored9]) \<and>
   distinct (map id_of [bare_talk 1, bare_talk 2, bare_talk 3]) \<and>
   set (map id_of [stored9]) \<inter> set (map id_of [bare_talk 1, bare_talk 2, bare_talk 3]) = {} \<and>
   distinct (map id_of [stored9, bare_talk 3, bare_talk 2, bare_talk 1])"
proof -
  have e: "existing_talks \<lparr>existing_talks = JList [stored9], new_ids = [1, 2, 3],
           new_talks = [bare_talk 1, bare_talk 2, bare_talk 3],
           all_talks = JList [stored9, bare_talk 3, bare_talk 2, bare_talk 1]\<rparr> = JList [stored9]"
    by simp
  have d: "distinct (map id_of [stored9])"
    "distinct (map id_of [bare_talk 1, bare_talk 2, bare_talk 3])"
    "set (map id_of [stored9]) \<inter> set (map id_of [bare_talk 1, bare_talk 2, bare_talk 3]) = {}"
    by (simp_all add: id_of_def stored9_def bare_talk_def)
  from no_loss_merge [OF run_over_stored e] d
  have "distinct (map id_of [stored9, bare_talk 3, bare_talk 2, bare_talk 1])"
    by (auto simp: fetch_talks_incremental_def run_over_stored)
  with run_over_stored d show ?thesis by blast
qed

end
